theory Spec2Isabelle
  imports Main "HOL-Library.Word" "HOL-Library.Sublist"
begin

unbundle bit_operations_syntax

text \<open>
  twterminator deletes the posts and removes the likes of one Twitter account that
  are older than a number of days. For each of the two categories a goroutine
  \<open>loadTweets\<close> pages backwards through the listing, filters with \<open>allowTweet\<close> and
  sends the tweets to delete on a channel; a goroutine \<open>removeTweets\<close> receives them
  and deletes them, or only prints them in a dry run; \<open>main\<close> computes the two
  cutoffs, starts the four goroutines and waits on a \<open>sync.WaitGroup\<close>.

  The functions below are those of the revision with one window for posts and one
  for likes. In the revision with a single window, \<open>allowTweet\<close> takes the whole
  filter and compares with its \<open>MaxDate\<close>; the functions are otherwise the same.
\<close>

section \<open>Data model\<close>

text \<open>
  Go's \<open>int64\<close> (and \<open>int\<close> on a 64-bit target) is a 64-bit word read in two's
  complement: \<open>+\<close> and \<open>-\<close> wrap, comparisons are the signed ones (\<open><s\<close>).
\<close>

type_synonym int64 = "64 word"

text \<open>
  A \<open>time.Time\<close> is an instant. It is given as the number of nanoseconds elapsed
  since January 1, year 1, 00:00:00 UTC, which is the instant of the zero value
  \<open>time.Time{}\<close>. \<open>Before\<close> compares instants.
\<close>

type_synonym time = int

definition zeroTime :: time where
  "zeroTime = 0"

definition Before :: "time \<Rightarrow> time \<Rightarrow> bool" where
  "Before t u = (t < u)"

text \<open>The fields of \<open>anaconda.Tweet\<close> that the program reads.\<close>

record tweet =
  Id_tw :: int64
  CreatedAt :: string
  Text :: string

text \<open>
  \<open>time.Parse\<close> belongs to Go's standard library. What it accepts for the layout
  \<open>Mon Jan 02 15:04:05 +0000 2006\<close> is a parameter \<open>parse\<close>: \<open>Some t\<close> when the
  string parses (error \<open>nil\<close>) and \<open>None\<close> when it does not. On an error
  \<open>time.Parse\<close> returns the zero value \<open>time.Time{}\<close> next to the error, and the
  program drops the error (\<open>dt, _ := time.Parse(...)\<close>), so \<open>dt\<close> is then the zero
  time.
\<close>

type_synonym parser = "string \<Rightarrow> time option"

definition time_Parse :: "parser \<Rightarrow> string \<Rightarrow> time" where
  "time_Parse parse s = (case parse s of None \<Rightarrow> zeroTime | Some t \<Rightarrow> t)"

section \<open>Retention filter\<close>

definition allowTweet :: "parser \<Rightarrow> tweet \<Rightarrow> time \<Rightarrow> bool" where
  "allowTweet parse tw maxDate =
     (let dt = time_Parse parse (CreatedAt tw)
      in if Before dt maxDate then True else False)"

section \<open>Configuration and command-line flags\<close>

definition maxErrorCount :: int where
  "maxErrorCount = 3"

definition Tweet :: string where
  "Tweet = ''Tweet''"

definition Like :: string where
  "Like = ''Like''"

record AuthInfo =
  ConsumerKey :: string
  ConsumerSecret :: string
  AccessToken :: string
  AccessSecret :: string
  Username :: string

record FilterInfo =
  BacklogDays :: int64
  BacklogDaysLikes :: int64

record Configuration =
  Auth :: AuthInfo
  Filter :: FilterInfo

text \<open>The values of the flags \<open>-d\<close>, \<open>-x\<close>, \<open>-b\<close> and \<open>-l\<close> after \<open>flag.Parse()\<close>.\<close>

record flags =
  debug :: bool
  xoxo :: bool
  backlog :: int64
  likemax :: int64

section \<open>Effects\<close>

text \<open>
  The \<open>url.Values\<close> that \<open>loadTweets\<close> passes to the loader: the three keys set before
  the loop and \<open>max_id\<close>, which is absent until the first page has been processed and
  then holds the number printed by \<open>fmt.Sprintf("%d", minID)\<close>.
\<close>

record url_Values =
  screen_name :: string
  count :: string
  include_rts :: string
  max_id :: "int64 option"

text \<open>
  What a call of the \<open>TweetLoader\<close> returns: \<open>Tweets ts\<close> is \<open>(ts, nil)\<close> and
  \<open>Err e\<close> is a non-nil error whose \<open>Error()\<close> is \<open>e\<close>.
\<close>

datatype response = Tweets "tweet list" | Err string

text \<open>
  Every effect of a goroutine is an event, and a run is the list of its events in
  program order. \<open>Printf f as\<close> is the call \<open>fmt.Printf(f, as...)\<close> with the format
  string of the source; \<open>FormatTime t\<close> stands for the string
  \<open>t.Format("02.01.06 15:04:05")\<close> and \<open>LocalTime t\<close> for
  \<open>t.Local().Format("02.01.06 15:04:05")\<close>.
\<close>

datatype arg = S string | D int | B bool | FormatTime time | LocalTime time

datatype category = Tw | Lk

datatype gid = GMain | GLoad category | GRemove category

datatype event =
    Call_loader url_Values
  | Printf string "arg list"
  | Println string
  | Send tweet
  | Close
  | Recv tweet
  | RangeEnd
  | LatchAdd int
  | LatchDone
  | LatchWait
  | Go gid
  | Call_DeleteTweet int64
  | Call_Unfavorite int64

section \<open>Paginator\<close>

text \<open>
  The variables of \<open>loadTweets\<close>. \<open>errorCount\<close> is a Go \<open>int\<close>; it is set to 0 or
  incremented, and the loop ends when it reaches 3, so it is taken as an integer.
\<close>

record loop_state =
  errorCount :: int
  minID :: int64
  params :: url_Values

datatype control = Continue | Break

text \<open>The loop \<open>for _, tweet := range tweets\<close>: the new \<open>minID\<close> and the sends.\<close>

fun range_tweets :: "parser \<Rightarrow> time \<Rightarrow> int64 \<Rightarrow> tweet list \<Rightarrow> int64 \<times> event list" where
  "range_tweets parse maxDate m [] = (m, [])"
| "range_tweets parse maxDate m (tw # tws) =
     (let m' = (if m = 0 \<or> Id_tw tw <s m then Id_tw tw else m);
          ev = (if allowTweet parse tw maxDate then [Send tw] else []);
          (m'', evs) = range_tweets parse maxDate m' tws
      in (m'', ev @ evs))"

text \<open>
  One turn of the \<open>for\<close> loop of \<open>loadTweets\<close> after \<open>loader(params)\<close> has returned
  \<open>r\<close>: whether the loop goes on, the new state, and the events of this turn.
\<close>

definition iteration ::
  "flags \<Rightarrow> parser \<Rightarrow> time \<Rightarrow> string \<Rightarrow> loop_state \<Rightarrow> response \<Rightarrow> control \<times> loop_state \<times> event list" where
  "iteration fl parse maxDate tweetType st r =
     (case r of
        Err e \<Rightarrow>
          (let st' = st\<lparr>errorCount := errorCount st + 1\<rparr>;
               ev = [Printf ''Error retrieving %ss: %s\<newline>'' [S tweetType, S e]]
           in if errorCount st' \<ge> maxErrorCount then (Break, st', ev) else (Continue, st', ev))
      | Tweets tweets \<Rightarrow>
          (let dbg = (if debug fl
                      then [Printf ''Retrieved %ss: %d %d\<newline>''
                              [S tweetType, D (int (length tweets)), D (sint (minID st))]]
                      else [])
           in if length tweets = 0 then (Break, st, dbg)
              else (let (m, evs) = range_tweets parse maxDate (minID st) tweets;
                        m' = m - 1
                    in (Continue,
                        st\<lparr>errorCount := 0, minID := m', params := (params st)\<lparr>max_id := Some m'\<rparr>\<rparr>,
                        dbg @ evs))))"

text \<open>
  The loader is given by the results of its successive calls. The loop takes one
  result per turn; when the results are used up with the loop still running, the run
  is cut there and the first component is \<open>False\<close>.
\<close>

fun loop ::
  "flags \<Rightarrow> parser \<Rightarrow> time \<Rightarrow> string \<Rightarrow> loop_state \<Rightarrow> response list \<Rightarrow> bool \<times> loop_state \<times> event list" where
  "loop fl parse maxDate tweetType st [] = (False, st, [])"
| "loop fl parse maxDate tweetType st (r # rs) =
     (case iteration fl parse maxDate tweetType st r of
        (Break, st', evs) \<Rightarrow> (True, st', Call_loader (params st) # evs)
      | (Continue, st', evs) \<Rightarrow>
          (case loop fl parse maxDate tweetType st' rs of
             (fin, st'', evs') \<Rightarrow> (fin, st'', Call_loader (params st) # evs @ evs')))"

definition init_state :: "Configuration \<Rightarrow> loop_state" where
  "init_state cfg =
     \<lparr>errorCount = 0, minID = 0,
      params = \<lparr>screen_name = Username (Auth cfg), count = ''200'', include_rts = ''1'',
                max_id = None\<rparr>\<rparr>"

text \<open>
  \<open>loadTweets\<close>: whether the function returned, and its events. A send
  \<open>stream <- tweet\<close> is recorded as completed, that is, the receiver took the value.
\<close>

definition loadTweets ::
  "flags \<Rightarrow> Configuration \<Rightarrow> parser \<Rightarrow> response list \<Rightarrow> time \<Rightarrow> string \<Rightarrow> bool \<times> event list" where
  "loadTweets fl cfg parse loader maxDate tweetType =
     (case loop fl parse maxDate tweetType (init_state cfg) loader of
        (fin, st, evs) \<Rightarrow>
          if fin
          then (True, evs @ [Close]
                  @ (if debug fl then [Printf ''Exiting load %ss\<newline>'' [S tweetType]] else [])
                  @ [LatchDone])
          else (False, evs))"

section \<open>Deletion consumer\<close>

text \<open>
  The client \<open>twitter\<close>: for an identifier, the error that \<open>DeleteTweet(id, false)\<close> and
  \<open>Unfavorite(id)\<close> return (\<open>None\<close> for \<open>nil\<close>).
\<close>

record TwitterApi =
  DeleteTweet :: "int64 \<Rightarrow> string option"
  Unfavorite :: "int64 \<Rightarrow> string option"

text \<open>The body of \<open>for tweet := range stream\<close> for one received tweet.\<close>

definition remove_body :: "flags \<Rightarrow> TwitterApi \<Rightarrow> parser \<Rightarrow> string \<Rightarrow> tweet \<Rightarrow> event list" where
  "remove_body fl twitter parse tweetType tw =
     (let dt = time_Parse parse (CreatedAt tw)
      in [Recv tw,
          Printf ''%s: %d %s - %s\<newline>''
            [S tweetType, D (sint (Id_tw tw)), LocalTime dt, S (Text tw)]]
         @ (if tweetType = Tweet then
              (if xoxo fl then
                 Call_DeleteTweet (Id_tw tw)
                 # (case DeleteTweet twitter (Id_tw tw) of
                      Some e \<Rightarrow> [Printf ''Error deleting tweet: %s\<newline>'' [S e]]
                    | None \<Rightarrow> [])
               else [])
            else if tweetType = Like then
              (if xoxo fl then
                 Call_Unfavorite (Id_tw tw)
                 # (case Unfavorite twitter (Id_tw tw) of
                      Some e \<Rightarrow> [Printf ''Error unliking tweet: %s\<newline>'' [S e]]
                    | None \<Rightarrow> [])
               else [])
            else [Printf ''Unknown tweet type: %s\<newline>'' [S tweetType]]))"

text \<open>
  \<open>removeTweets\<close> on a channel that delivers the tweets \<open>stream\<close> and is then closed.
\<close>

definition removeTweets ::
  "flags \<Rightarrow> TwitterApi \<Rightarrow> parser \<Rightarrow> tweet list \<Rightarrow> string \<Rightarrow> event list" where
  "removeTweets fl twitter parse stream tweetType =
     LatchAdd 1
     # concat (map (remove_body fl twitter parse tweetType) stream)
     @ [RangeEnd]
     @ (if debug fl then [Printf ''Exiting log %ss\<newline>'' [S tweetType]] else [])
     @ [LatchDone]"

section \<open>Coordinator\<close>

record TweetFilter =
  MaxDate :: time
  MaxDateLikes :: time

text \<open>\<open>time.Hour\<close> is a \<open>Duration\<close>, an \<open>int64\<close> count of nanoseconds.\<close>

definition Hour :: int64 where
  "Hour = 3600000000000"

definition Add :: "time \<Rightarrow> int64 \<Rightarrow> time" where
  "Add t d = t + sint d"

definition maxDays :: "flags \<Rightarrow> Configuration \<Rightarrow> int64" where
  "maxDays fl cfg =
     (let maxDays = BacklogDays (Filter cfg)
      in if 0 <s backlog fl then backlog fl else maxDays)"

definition maxDaysLikes :: "flags \<Rightarrow> Configuration \<Rightarrow> int64" where
  "maxDaysLikes fl cfg =
     (let maxDaysLikes = BacklogDaysLikes (Filter cfg);
          maxDaysLikes = (if 0 <s likemax fl then likemax fl else maxDaysLikes)
      in if maxDaysLikes = 0 then maxDays fl cfg else maxDaysLikes)"

text \<open>
  The filter of \<open>main\<close>; \<open>now1\<close> and \<open>now2\<close> are what the two calls of \<open>time.Now()\<close>
  return.
\<close>

definition main_filter :: "flags \<Rightarrow> Configuration \<Rightarrow> time \<Rightarrow> time \<Rightarrow> TweetFilter" where
  "main_filter fl cfg now1 now2 =
     \<lparr>MaxDate = Add now1 (maxDays fl cfg * (- 24) * Hour),
      MaxDateLikes = Add now2 (maxDaysLikes fl cfg * (- 24) * Hour)\<rparr>"

text \<open>
  The events of the goroutine of \<open>main\<close>; \<open>cfgo\<close> is what \<open>GetConfig()\<close> returns
  (\<open>None\<close> for \<open>nil\<close>). The calls that set up the client \<open>twitter\<close> are not events:
  the client is a parameter.
\<close>

definition main :: "flags \<Rightarrow> Configuration option \<Rightarrow> time \<Rightarrow> time \<Rightarrow> event list" where
  "main fl cfgo now1 now2 =
     (if debug fl then [Printf ''debug: %t, commit: %t\<newline>'' [B (debug fl), B (xoxo fl)]] else [])
     @ (case cfgo of
          None \<Rightarrow> [Println ''Missing configuration file'']
        | Some cfg \<Rightarrow>
            (let filter = main_filter fl cfg now1 now2
             in [Printf ''Filter Tweets: %2d days, %s\<newline>''
                   [D (sint (maxDays fl cfg)), FormatTime (MaxDate filter)],
                 Printf ''Filter Likes:  %2d days, %s\<newline>''
                   [D (sint (maxDaysLikes fl cfg)), FormatTime (MaxDateLikes filter)],
                 LatchAdd 2,
                 Go (GLoad Tw), Go (GLoad Lk), Go (GRemove Tw), Go (GRemove Lk),
                 LatchWait]))"

section \<open>The goroutines together\<close>

text \<open>
  The state of the running program: the counter of the \<open>sync.WaitGroup\<close> \<open>latch\<close>,
  which channels are closed, which goroutines have been started by a \<open>go\<close>
  statement, and for each goroutine the events it still has to perform.
\<close>

record sys =
  latch :: int
  closed :: "category \<Rightarrow> bool"
  started :: "gid \<Rightarrow> bool"
  rest :: "gid \<Rightarrow> event list"

fun tweetType_of :: "category \<Rightarrow> string" where
  "tweetType_of Tw = Tweet"
| "tweetType_of Lk = Like"

fun maxDate_of :: "TweetFilter \<Rightarrow> category \<Rightarrow> time" where
  "maxDate_of f Tw = MaxDate f"
| "maxDate_of f Lk = MaxDateLikes f"

fun sends :: "event list \<Rightarrow> tweet list" where
  "sends [] = []"
| "sends (Send tw # evs) = tw # sends evs"
| "sends (e # evs) = sends evs"

text \<open>
  The program at its start: only \<open>main\<close> runs. \<open>loader c\<close> lists what the successive
  calls of \<open>twitter.GetUserTimeline\<close> (for \<open>Tw\<close>) and \<open>twitter.GetFavorites\<close> (for
  \<open>Lk\<close>) return. The channels \<open>chTw\<close> and \<open>chLk\<close> are unbuffered and have one sender
  and one receiver each, so \<open>removeTweets\<close> receives what \<open>loadTweets\<close> sends, in the
  same order.
\<close>

definition start ::
  "flags \<Rightarrow> Configuration option \<Rightarrow> parser \<Rightarrow> TwitterApi \<Rightarrow> time \<Rightarrow> time
     \<Rightarrow> (category \<Rightarrow> response list) \<Rightarrow> sys" where
  "start fl cfgo parse twitter now1 now2 loader =
     \<lparr>latch = 0,
      closed = (\<lambda>c. False),
      started = (\<lambda>g. g = GMain),
      rest = (\<lambda>g. case g of
                GMain \<Rightarrow> main fl cfgo now1 now2
              | GLoad c \<Rightarrow>
                  (case cfgo of
                     None \<Rightarrow> []
                   | Some cfg \<Rightarrow>
                       snd (loadTweets fl cfg parse (loader c)
                              (maxDate_of (main_filter fl cfg now1 now2) c) (tweetType_of c)))
              | GRemove c \<Rightarrow>
                  (case cfgo of
                     None \<Rightarrow> []
                   | Some cfg \<Rightarrow>
                       removeTweets fl twitter parse
                         (sends (snd (loadTweets fl cfg parse (loader c)
                                   (maxDate_of (main_filter fl cfg now1 now2) c) (tweetType_of c))))
                         (tweetType_of c)))\<rparr>"

text \<open>
  One step of goroutine \<open>g\<close>, or \<open>None\<close> when \<open>g\<close> cannot move. The process ends when
  \<open>main\<close> returns, so nothing moves once \<open>main\<close> has no event left. \<open>latch.Wait()\<close>
  returns only when the counter is zero. A send on an unbuffered channel happens
  together with the receive: the step of the sender moves the receiver too, and it
  needs the receiver to stand at its receive. The \<open>range\<close> over the channel ends only
  on a closed channel. (\<open>latch.Done()\<close> panics on a counter below zero; every
  \<open>Done\<close> of this program comes after the \<open>Add\<close> that counts it, so this does not
  occur.)
\<close>

definition step :: "gid \<Rightarrow> sys \<Rightarrow> sys option" where
  "step g s =
     (if rest s GMain \<noteq> [] \<and> started s g then
        case rest s g of
        [] \<Rightarrow> None
      | e # es \<Rightarrow>
          (let s' = s\<lparr>rest := (rest s)(g := es)\<rparr>
           in case e of
                LatchAdd n \<Rightarrow> Some (s'\<lparr>latch := latch s + n\<rparr>)
              | LatchDone \<Rightarrow> Some (s'\<lparr>latch := latch s - 1\<rparr>)
              | LatchWait \<Rightarrow> if latch s = 0 then Some s' else None
              | Go g' \<Rightarrow> Some (s'\<lparr>started := (started s)(g' := True)\<rparr>)
              | Close \<Rightarrow>
                  (case g of
                     GLoad c \<Rightarrow> Some (s'\<lparr>closed := (closed s)(c := True)\<rparr>)
                   | _ \<Rightarrow> None)
              | RangeEnd \<Rightarrow>
                  (case g of
                     GRemove c \<Rightarrow> if closed s c then Some s' else None
                   | _ \<Rightarrow> None)
              | Send tw \<Rightarrow>
                  (case g of
                     GLoad c \<Rightarrow>
                       (case rest s (GRemove c) of
                          Recv tw' # rs \<Rightarrow>
                            if started s (GRemove c) \<and> tw' = tw
                            then Some (s\<lparr>rest := (rest s)(g := es, GRemove c := rs)\<rparr>)
                            else None
                        | _ \<Rightarrow> None)
                   | _ \<Rightarrow> None)
              | Recv tw \<Rightarrow> None
              | _ \<Rightarrow> Some s')
      else None)"

text \<open>A schedule names the goroutine that moves at each step.\<close>

fun run :: "gid list \<Rightarrow> sys \<Rightarrow> sys option" where
  "run [] s = Some s"
| "run (g # gs) s = (case step g s of None \<Rightarrow> None | Some s' \<Rightarrow> run gs s')"

text \<open>
  What an event does to the counter of \<open>latch\<close>, and what a list of events still to
  come will do to it in total.
\<close>

fun bal :: "event \<Rightarrow> int" where
  "bal (LatchAdd n) = n"
| "bal LatchDone = - 1"
| "bal e = 0"

definition pending :: "event list \<Rightarrow> int" where
  "pending evs = sum_list (map bal evs)"

text \<open>The same for the whole program: the sum over the five goroutines.\<close>

definition outstanding :: "sys \<Rightarrow> int" where
  "outstanding s =
     pending (rest s GMain)
     + pending (rest s (GLoad Tw)) + pending (rest s (GLoad Lk))
     + pending (rest s (GRemove Tw)) + pending (rest s (GRemove Lk))"

section \<open>Observations on runs\<close>

text \<open>
  What a run shows: the parameters of the calls of the loader, in order; the calls
  that delete a tweet or remove a like; the lines printed. \<open>sends\<close> above lists the
  tweets sent on the channel, and \<open>count_list evs Close\<close> counts the calls of
  \<open>close\<close>.
\<close>

fun calls :: "event list \<Rightarrow> url_Values list" where
  "calls [] = []"
| "calls (Call_loader p # evs) = p # calls evs"
| "calls (e # evs) = calls evs"

text \<open>The values of \<open>max_id\<close> passed to the loader, for the calls that carry one.\<close>

definition cursors :: "event list \<Rightarrow> int64 list" where
  "cursors evs = List.map_filter max_id (calls evs)"

text \<open>The least identifier of a non-empty list of tweets, as an integer.\<close>

definition min_id :: "tweet list \<Rightarrow> int" where
  "min_id tws = Min (sint ` Id_tw ` set tws)"

fun destructive :: "event \<Rightarrow> bool" where
  "destructive (Call_DeleteTweet i) = True"
| "destructive (Call_Unfavorite i) = True"
| "destructive e = False"

fun printed :: "event \<Rightarrow> bool" where
  "printed (Printf f as) = True"
| "printed (Println l) = True"
| "printed e = False"

fun recvs :: "event list \<Rightarrow> tweet list" where
  "recvs [] = []"
| "recvs (Recv tw # evs) = tw # recvs evs"
| "recvs (e # evs) = recvs evs"

text \<open>The tweets of a result of the loader; an error carries none.\<close>

fun tweets_of :: "response \<Rightarrow> tweet list" where
  "tweets_of (Tweets tws) = tws"
| "tweets_of (Err e) = []"

section \<open>Sample data\<close>

text \<open>
  Concrete values for the instances below. \<open>sampleParse\<close> knows five timestamps, with
  the instants that \<open>time.Parse\<close> gives for them, and rejects every other string;
  \<open>''yesterday''\<close> is a string that \<open>time.Parse\<close> rejects too. \<open>sampleNow\<close> is
  June 15, 2016, 12:00:00 UTC.
\<close>

definition sampleParse :: parser where
  "sampleParse =
     map_of
       [(''Wed Jun 15 12:00:00 +0000 2016'', 63601588800000000000),
        (''Tue Jun 14 12:00:00 +0000 2016'', 63601502400000000000),
        (''Wed Jun 08 12:00:00 +0000 2016'', 63600984000000000000),
        (''Tue Jun 07 12:00:00 +0000 2016'', 63600897600000000000),
        (''Sun Jun 05 12:00:00 +0000 2016'', 63600724800000000000)]"

definition sampleNow :: time where
  "sampleNow = 63601588800000000000"

definition sampleCutoff :: time where
  "sampleCutoff = 63600984000000000000"

definition tweet1d :: tweet where
  "tweet1d = \<lparr>Id_tw = 300, CreatedAt = ''Tue Jun 14 12:00:00 +0000 2016'', Text = ''one day old''\<rparr>"

definition tweet10d :: tweet where
  "tweet10d = \<lparr>Id_tw = 200, CreatedAt = ''Sun Jun 05 12:00:00 +0000 2016'', Text = ''ten days old''\<rparr>"

definition tweet8d :: tweet where
  "tweet8d = \<lparr>Id_tw = 100, CreatedAt = ''Tue Jun 07 12:00:00 +0000 2016'', Text = ''eight days old''\<rparr>"

definition tweet7d :: tweet where
  "tweet7d = \<lparr>Id_tw = 150, CreatedAt = ''Wed Jun 08 12:00:00 +0000 2016'', Text = ''seven days old''\<rparr>"

definition tweetZero :: tweet where
  "tweetZero = \<lparr>Id_tw = 0, CreatedAt = ''Sun Jun 05 12:00:00 +0000 2016'', Text = ''identifier zero''\<rparr>"

definition tweetSeven :: tweet where
  "tweetSeven = \<lparr>Id_tw = 7, CreatedAt = ''Sun Jun 05 12:00:00 +0000 2016'', Text = ''identifier seven''\<rparr>"

definition tweetBad :: tweet where
  "tweetBad = \<lparr>Id_tw = 50, CreatedAt = ''yesterday'', Text = ''no date''\<rparr>"

definition sampleResults :: "response list" where
  "sampleResults =
     [Tweets [tweet1d, tweet10d, tweet8d], Err ''timeout'', Err ''timeout'', Tweets [tweetBad]]"

definition sampleConfig :: Configuration where
  "sampleConfig =
     \<lparr>Auth = \<lparr>ConsumerKey = ''ck'', ConsumerSecret = ''cs'', AccessToken = ''at'',
              AccessSecret = ''as'', Username = ''user''\<rparr>,
      Filter = \<lparr>BacklogDays = 7, BacklogDaysLikes = 0\<rparr>\<rparr>"

definition zeroConfig :: Configuration where
  "zeroConfig =
     \<lparr>Auth = \<lparr>ConsumerKey = ''ck'', ConsumerSecret = ''cs'', AccessToken = ''at'',
              AccessSecret = ''as'', Username = ''user''\<rparr>,
      Filter = \<lparr>BacklogDays = 0, BacklogDaysLikes = 0\<rparr>\<rparr>"

definition dryRun :: flags where
  "dryRun = \<lparr>debug = False, xoxo = False, backlog = 0, likemax = 0\<rparr>"

definition commitRun :: flags where
  "commitRun = \<lparr>debug = False, xoxo = True, backlog = 0, likemax = 0\<rparr>"

definition sampleApi :: TwitterApi where
  "sampleApi = \<lparr>DeleteTweet = (\<lambda>i. None), Unfavorite = (\<lambda>i. None)\<rparr>"

text \<open>
  An account without posts and without likes: the first call of either loader returns
  an empty page. In \<open>loadersFirst\<close>, \<open>main\<close> runs up to \<open>latch.Wait()\<close>, then each
  \<open>loadTweets\<close> runs to its end, and then \<open>main\<close> moves again; the two goroutines of
  \<open>removeTweets\<close> have not run yet.
\<close>

definition noTweets :: "category \<Rightarrow> response list" where
  "noTweets c = [Tweets []]"

definition loadersFirst :: "gid list" where
  "loadersFirst =
     [GMain, GMain, GMain, GMain, GMain, GMain, GMain,
      GLoad Tw, GLoad Tw, GLoad Tw,
      GLoad Lk, GLoad Lk, GLoad Lk,
      GMain]"

section \<open>Retention filter: properties\<close>

text \<open>
  C1 (as amended). The claim says that \<open>allowTweet\<close> returns false for an item whose
  timestamp does not parse. The code reads such an item as created at the zero time:
  \<open>allowTweet\<close> returns true exactly when the zero time is before the cutoff, hence
  for every cutoff after January 1, year 1, 00:00:00 UTC.
\<close>

theorem C1_unparsed_is_zero_time:
  assumes "parse (CreatedAt tw) = None"
  shows "allowTweet parse tw maxDate = (zeroTime < maxDate)"
  using assms by (simp add: allowTweet_def time_Parse_def Before_def)

theorem C1_unparsed_is_zero_time_witness:
  "sampleParse (CreatedAt tweetBad) = None
   \<and> allowTweet sampleParse tweetBad sampleNow = (zeroTime < sampleNow)"
proof -
  have h: "sampleParse (CreatedAt tweetBad) = None"
    by (simp add: sampleParse_def tweetBad_def)
  from C1_unparsed_is_zero_time [of sampleParse tweetBad sampleNow] h show ?thesis by simp
qed

text \<open>
  C1 fails as stated: the timestamp of \<open>tweetBad\<close> does not parse, and the filter
  lets the tweet through for the cutoff of seven days before \<open>sampleNow\<close>.
\<close>

theorem C1_counterexample:
  "sampleParse (CreatedAt tweetBad) = None \<and> allowTweet sampleParse tweetBad sampleCutoff = True"
  by (simp add: sampleParse_def tweetBad_def allowTweet_def time_Parse_def Before_def
        zeroTime_def sampleCutoff_def)

text \<open>
  C5. For an item whose timestamp parses to \<open>createdAt\<close>, \<open>allowTweet\<close> returns true if
  and only if \<open>createdAt\<close> is strictly before the cutoff; at \<open>createdAt = cutoff\<close> and
  later it returns false. The filter is a function of the item and the cutoff into
  \<open>bool\<close>: it has no events and no state.
\<close>

theorem C5_allow_iff_strictly_before:
  assumes "parse (CreatedAt tw) = Some createdAt"
  shows "allowTweet parse tw cutoff = (createdAt < cutoff)"
  using assms by (simp add: allowTweet_def time_Parse_def Before_def)

theorem C5_allow_iff_strictly_before_witness:
  "sampleParse (CreatedAt tweet7d) = Some sampleCutoff
   \<and> allowTweet sampleParse tweet7d sampleCutoff = (sampleCutoff < sampleCutoff)
   \<and> \<not> allowTweet sampleParse tweet7d sampleCutoff
   \<and> allowTweet sampleParse tweet7d sampleNow"
proof -
  have h: "sampleParse (CreatedAt tweet7d) = Some sampleCutoff"
    by (simp add: sampleParse_def tweet7d_def sampleCutoff_def)
  from C5_allow_iff_strictly_before [of sampleParse tweet7d sampleCutoff sampleCutoff]
       C5_allow_iff_strictly_before [of sampleParse tweet7d sampleCutoff sampleNow] h
  show ?thesis by (simp add: sampleCutoff_def sampleNow_def)
qed

section \<open>Coordinator: the retention windows\<close>

text \<open>
  C9. The effective number of days for posts is the configured \<open>BacklogDays\<close>,
  replaced by the flag \<open>-b\<close> when the flag is strictly positive. The effective number
  for likes is the configured \<open>BacklogDaysLikes\<close>, replaced by the flag \<open>-l\<close> when
  that flag is strictly positive; when the resulting number is zero it is the
  effective number for posts.
\<close>

theorem C9_effective_backlog_days:
  "maxDays fl cfg = (if 0 < sint (backlog fl) then backlog fl else BacklogDays (Filter cfg))
   \<and> maxDaysLikes fl cfg =
       (let likes = (if 0 < sint (likemax fl) then likemax fl else BacklogDaysLikes (Filter cfg))
        in if likes = 0 then maxDays fl cfg else likes)"
  by (simp add: maxDays_def maxDaysLikes_def word_sless_alt Let_def)

lemma backlog_days_examples:
  "maxDaysLikes dryRun sampleConfig = 7"
  "maxDaysLikes (dryRun\<lparr>likemax := 3\<rparr>) sampleConfig = 3"
  "maxDaysLikes (dryRun\<lparr>backlog := 30\<rparr>) sampleConfig = 30"
  "maxDaysLikes (dryRun\<lparr>likemax := - 1\<rparr>) (sampleConfig\<lparr>Filter := \<lparr>BacklogDays = 7, BacklogDaysLikes = 2\<rparr>\<rparr>) = 2"
  by (simp_all add: maxDays_def maxDaysLikes_def word_sless_alt Let_def dryRun_def sampleConfig_def)

text \<open>With seven days configured, the cutoff is seven days before the clock reading.\<close>

lemma main_filter_seven_days:
  "main_filter dryRun sampleConfig sampleNow (sampleNow + 5)
     = \<lparr>MaxDate = sampleCutoff, MaxDateLikes = sampleCutoff + 5\<rparr>"
  by (simp add: main_filter_def maxDays_def maxDaysLikes_def Add_def Hour_def dryRun_def
        sampleConfig_def sampleNow_def sampleCutoff_def)

text \<open>
  C10. When the effective number of days of a category is 0, the cutoff of the
  category is the instant that \<open>time.Now()\<close> returned, so the filter lets through every
  item created strictly before that instant. The number for posts is 0 exactly when
  the flag \<open>-b\<close> is not positive and \<open>BacklogDays\<close> is 0; the number for likes is 0
  exactly when the flag \<open>-l\<close> is not positive, \<open>BacklogDaysLikes\<close> is 0 and the
  number for posts is 0.
\<close>

theorem C10_zero_days_cutoff_is_now:
  "(maxDays fl cfg = 0 \<longrightarrow>
       MaxDate (main_filter fl cfg now1 now2) = now1
     \<and> (\<forall>tw t. parse (CreatedAt tw) = Some t \<and> t < now1
           \<longrightarrow> allowTweet parse tw (MaxDate (main_filter fl cfg now1 now2))))
 \<and> (maxDaysLikes fl cfg = 0 \<longrightarrow>
       MaxDateLikes (main_filter fl cfg now1 now2) = now2
     \<and> (\<forall>tw t. parse (CreatedAt tw) = Some t \<and> t < now2
           \<longrightarrow> allowTweet parse tw (MaxDateLikes (main_filter fl cfg now1 now2))))
 \<and> (maxDays fl cfg = 0) = (\<not> 0 < sint (backlog fl) \<and> BacklogDays (Filter cfg) = 0)
 \<and> (maxDaysLikes fl cfg = 0) =
       (\<not> 0 < sint (likemax fl) \<and> BacklogDaysLikes (Filter cfg) = 0 \<and> maxDays fl cfg = 0)"
proof (intro conjI impI allI)
  assume "maxDays fl cfg = 0"
  then show "MaxDate (main_filter fl cfg now1 now2) = now1"
    by (simp add: main_filter_def Add_def)
next
  fix tw :: tweet and t
  assume "maxDays fl cfg = 0" and "parse (CreatedAt tw) = Some t \<and> t < now1"
  then show "allowTweet parse tw (MaxDate (main_filter fl cfg now1 now2))"
    by (simp add: main_filter_def Add_def allowTweet_def time_Parse_def Before_def)
next
  assume "maxDaysLikes fl cfg = 0"
  then show "MaxDateLikes (main_filter fl cfg now1 now2) = now2"
    by (simp add: main_filter_def Add_def)
next
  fix tw :: tweet and t
  assume "maxDaysLikes fl cfg = 0" and "parse (CreatedAt tw) = Some t \<and> t < now2"
  then show "allowTweet parse tw (MaxDateLikes (main_filter fl cfg now1 now2))"
    by (simp add: main_filter_def Add_def allowTweet_def time_Parse_def Before_def)
next
  show "(maxDays fl cfg = 0) = (\<not> 0 < sint (backlog fl) \<and> BacklogDays (Filter cfg) = 0)"
    by (auto simp add: maxDays_def word_sless_alt)
next
  show "(maxDaysLikes fl cfg = 0) =
          (\<not> 0 < sint (likemax fl) \<and> BacklogDaysLikes (Filter cfg) = 0 \<and> maxDays fl cfg = 0)"
    by (auto simp add: maxDaysLikes_def word_sless_alt Let_def)
qed

theorem C10_zero_days_cutoff_is_now_witness:
  "maxDays dryRun zeroConfig = 0
   \<and> maxDaysLikes dryRun zeroConfig = 0
   \<and> sampleParse (CreatedAt tweet1d) = Some 63601502400000000000
   \<and> (63601502400000000000 :: int) < sampleNow
   \<and> MaxDate (main_filter dryRun zeroConfig sampleNow (sampleNow + 1)) = sampleNow
   \<and> MaxDateLikes (main_filter dryRun zeroConfig sampleNow (sampleNow + 1)) = sampleNow + 1
   \<and> allowTweet sampleParse tweet1d (MaxDate (main_filter dryRun zeroConfig sampleNow (sampleNow + 1)))
   \<and> allowTweet sampleParse tweet1d
        (MaxDateLikes (main_filter dryRun zeroConfig sampleNow (sampleNow + 1)))"
proof -
  have d: "maxDays dryRun zeroConfig = 0" "maxDaysLikes dryRun zeroConfig = 0"
    by (simp_all add: maxDays_def maxDaysLikes_def dryRun_def zeroConfig_def)
  have p: "sampleParse (CreatedAt tweet1d) = Some 63601502400000000000"
    by (simp add: sampleParse_def tweet1d_def)
  have n: "(63601502400000000000 :: int) < sampleNow"
    by (simp add: sampleNow_def)
  from C10_zero_days_cutoff_is_now
         [of dryRun zeroConfig sampleNow "sampleNow + 1" sampleParse] d p n
  show ?thesis by auto
qed

section \<open>Deletion consumer: dry run\<close>

text \<open>
  C6. With the commit flag \<open>-x\<close> off, a run of \<open>removeTweets\<close> contains no call of
  \<open>DeleteTweet\<close> and no call of \<open>Unfavorite\<close>, whatever the tweets received, the
  category string and the client. For the categories \<open>Tweet\<close> and \<open>Like\<close> it prints
  one line for each received tweet, in the order of receipt, and besides these only
  the final line of the debug mode.
\<close>

theorem C6_dry_run_no_destructive_call:
  assumes "\<not> xoxo fl"
  shows "filter destructive (removeTweets fl twitter parse stream tweetType) = []
       \<and> (tweetType = Tweet \<or> tweetType = Like \<longrightarrow>
            filter printed (removeTweets fl twitter parse stream tweetType)
            = map (\<lambda>tw. Printf ''%s: %d %s - %s\<newline>''
                          [S tweetType, D (sint (Id_tw tw)),
                           LocalTime (time_Parse parse (CreatedAt tw)), S (Text tw)]) stream
              @ (if debug fl then [Printf ''Exiting log %ss\<newline>'' [S tweetType]] else []))"
proof (intro conjI impI)
  show "filter destructive (removeTweets fl twitter parse stream tweetType) = []"
    using assms
    by (induction stream) (simp_all add: removeTweets_def remove_body_def Let_def)
next
  assume "tweetType = Tweet \<or> tweetType = Like"
  then show "filter printed (removeTweets fl twitter parse stream tweetType)
            = map (\<lambda>tw. Printf ''%s: %d %s - %s\<newline>''
                          [S tweetType, D (sint (Id_tw tw)),
                           LocalTime (time_Parse parse (CreatedAt tw)), S (Text tw)]) stream
              @ (if debug fl then [Printf ''Exiting log %ss\<newline>'' [S tweetType]] else [])"
    using assms
    by (induction stream) (auto simp add: removeTweets_def remove_body_def Let_def)
qed

theorem C6_dry_run_no_destructive_call_witness:
  "\<not> xoxo dryRun
   \<and> filter destructive (removeTweets dryRun sampleApi sampleParse [tweet10d, tweet8d] Tweet) = []
   \<and> length (filter printed (removeTweets dryRun sampleApi sampleParse [tweet10d, tweet8d] Tweet)) = 2"
proof -
  have h: "\<not> xoxo dryRun" "\<not> debug dryRun"
    by (simp_all add: dryRun_def)
  from C6_dry_run_no_destructive_call [OF h(1), of sampleApi sampleParse "[tweet10d, tweet8d]" Tweet] h
  show ?thesis by simp
qed

text \<open>With the commit flag on, the same tweets are deleted.\<close>

lemma commit_run_deletes:
  "filter destructive (removeTweets commitRun sampleApi sampleParse [tweet10d, tweet8d] Tweet)
     = [Call_DeleteTweet 200, Call_DeleteTweet 100]"
  by (simp add: removeTweets_def remove_body_def commitRun_def sampleApi_def Tweet_def
        tweet10d_def tweet8d_def)

section \<open>Paginator: what a run contains\<close>

lemma sends_append: "sends (xs @ ys) = sends xs @ sends ys"
  by (induction xs rule: sends.induct) simp_all

lemma calls_append: "calls (xs @ ys) = calls xs @ calls ys"
  by (induction xs rule: calls.induct) simp_all

lemma recvs_append: "recvs (xs @ ys) = recvs xs @ recvs ys"
  by (induction xs rule: recvs.induct) simp_all

lemma sends_map_Send: "sends (map Send tws) = tws"
  by (induction tws) simp_all

lemma calls_map_Send: "calls (map Send tws) = []"
  by (induction tws) simp_all

lemma count_Close_map_Send: "count_list (map Send tws) Close = 0"
  by (induction tws) simp_all

text \<open>The inner loop sends the allowed tweets of the page, in the order of the page.\<close>

lemma range_tweets_events:
  "snd (range_tweets parse maxDate m tws)
     = map Send (filter (\<lambda>tw. allowTweet parse tw maxDate) tws)"
  by (induction tws arbitrary: m) (simp_all add: Let_def case_prod_beta)

lemma iteration_sends:
  "sends (snd (snd (iteration fl parse maxDate tweetType st r)))
     = filter (\<lambda>tw. allowTweet parse tw maxDate) (tweets_of r)"
  by (cases r)
     (simp_all add: iteration_def Let_def case_prod_beta sends_append range_tweets_events
        sends_map_Send)

lemma iteration_calls:
  "calls (snd (snd (iteration fl parse maxDate tweetType st r))) = []"
  by (cases r)
     (simp_all add: iteration_def Let_def case_prod_beta calls_append range_tweets_events
        calls_map_Send)

lemma iteration_closes:
  "count_list (snd (snd (iteration fl parse maxDate tweetType st r))) Close = 0"
  by (cases r)
     (simp_all add: iteration_def Let_def case_prod_beta range_tweets_events
        count_Close_map_Send)

text \<open>The loop, one turn unfolded, with projections in place of patterns.\<close>

lemma loop_Cons:
  "loop fl parse maxDate tweetType st (r # rs) =
     (let it = iteration fl parse maxDate tweetType st r;
          evs = Call_loader (params st) # snd (snd it)
      in if fst it = Break then (True, fst (snd it), evs)
         else (let l = loop fl parse maxDate tweetType (fst (snd it)) rs
               in (fst l, fst (snd l), evs @ snd (snd l))))"
  by (simp add: Let_def case_prod_beta split: prod.splits control.splits)

text \<open>
  While the loop is running, further results continue the run; once it has left the
  loop, further results are never asked for.
\<close>

lemma loop_running_append:
  "\<not> fst (loop fl parse maxDate tweetType st pre) \<Longrightarrow>
   loop fl parse maxDate tweetType st (pre @ rs) =
     (let l = loop fl parse maxDate tweetType st pre;
          l' = loop fl parse maxDate tweetType (fst (snd l)) rs
      in (fst l', fst (snd l'), snd (snd l) @ snd (snd l')))"
proof (induction pre arbitrary: st)
  case Nil
  then show ?case by simp
next
  case (Cons r pre)
  then show ?case
    by (simp add: loop_Cons Let_def del: loop.simps split: if_splits)
qed

lemma loop_finished_append:
  "fst (loop fl parse maxDate tweetType st pre) \<Longrightarrow>
   loop fl parse maxDate tweetType st (pre @ rs) = loop fl parse maxDate tweetType st pre"
proof (induction pre arbitrary: st)
  case Nil
  then show ?case by simp
next
  case (Cons r pre)
  then show ?case
    by (simp add: loop_Cons Let_def del: loop.simps split: if_splits)
qed

text \<open>
  Each call of the loader takes one result. The tweets sent are the allowed tweets of
  the results taken, and the loop itself never closes the channel.
\<close>

lemma loop_consumed:
  "length (calls (snd (snd (loop fl parse maxDate tweetType st script)))) \<le> length script
   \<and> (\<not> fst (loop fl parse maxDate tweetType st script) \<longrightarrow>
        length (calls (snd (snd (loop fl parse maxDate tweetType st script)))) = length script)
   \<and> sends (snd (snd (loop fl parse maxDate tweetType st script)))
       = filter (\<lambda>tw. allowTweet parse tw maxDate)
           (concat (map tweets_of
              (take (length (calls (snd (snd (loop fl parse maxDate tweetType st script)))))
                 script)))
   \<and> count_list (snd (snd (loop fl parse maxDate tweetType st script))) Close = 0"
proof (induction script arbitrary: st)
  case Nil
  show ?case by simp
next
  case (Cons r rs)
  show ?case
    using Cons.IH [of "fst (snd (iteration fl parse maxDate tweetType st r))"]
    by (simp add: loop_Cons Let_def calls_append sends_append iteration_calls iteration_sends
          iteration_closes del: loop.simps)
qed

lemma loadTweets_obs:
  "calls (snd (loadTweets fl cfg parse loader maxDate tweetType))
     = calls (snd (snd (loop fl parse maxDate tweetType (init_state cfg) loader)))"
  "sends (snd (loadTweets fl cfg parse loader maxDate tweetType))
     = sends (snd (snd (loop fl parse maxDate tweetType (init_state cfg) loader)))"
  "fst (loadTweets fl cfg parse loader maxDate tweetType)
     = fst (loop fl parse maxDate tweetType (init_state cfg) loader)"
  "count_list (snd (loadTweets fl cfg parse loader maxDate tweetType)) Close
     = (if fst (loop fl parse maxDate tweetType (init_state cfg) loader) then 1 else 0)"
  using loop_consumed [of fl parse maxDate tweetType "init_state cfg" loader]
  by (simp_all add: loadTweets_def case_prod_beta calls_append sends_append)

text \<open>\<open>removeTweets\<close> receives the tweets of the channel in their order.\<close>

lemma recvs_removeTweets:
  "recvs (removeTweets fl twitter parse stream tweetType) = stream"
  by (induction stream)
     (simp_all add: removeTweets_def remove_body_def Let_def recvs_append split: option.splits)

text \<open>The scenario of the specification, evaluated.\<close>

lemma scenario_run:
  "loadTweets dryRun sampleConfig sampleParse
     [Tweets [tweet1d, tweet10d, tweet8d], Tweets []] sampleCutoff Tweet
   = (True,
      [Call_loader \<lparr>screen_name = ''user'', count = ''200'', include_rts = ''1'', max_id = None\<rparr>,
       Send tweet10d, Send tweet8d,
       Call_loader \<lparr>screen_name = ''user'', count = ''200'', include_rts = ''1'', max_id = Some 99\<rparr>,
       Close, LatchDone])"
  by (simp add: loadTweets_def init_state_def iteration_def dryRun_def sampleConfig_def
        allowTweet_def time_Parse_def Before_def sampleParse_def tweet1d_def tweet10d_def
        tweet8d_def sampleCutoff_def word_sless_alt)

section \<open>Paginator: order of the stream\<close>

text \<open>
  C8. The tweets sent on the channel are the allowed tweets of the pages that the
  calls of the loader returned: pages in the order of the calls, tweets in the order
  of their page, the tweets that the filter rejects left out. \<open>removeTweets\<close> receives
  them in this order. For the page with tweets of one, ten and eight days ago and the
  cutoff of seven days ago, the tweet of ten days ago is sent first and the tweet of
  eight days ago second, and nothing else.
\<close>

theorem C8_stream_in_discovery_order:
  "sends (snd (loadTweets fl cfg parse loader maxDate tweetType))
     = filter (\<lambda>tw. allowTweet parse tw maxDate)
         (concat (map tweets_of
            (take (length (calls (snd (loadTweets fl cfg parse loader maxDate tweetType))))
               loader)))
   \<and> recvs (removeTweets fl twitter parse
              (sends (snd (loadTweets fl cfg parse loader maxDate tweetType))) tweetType)
     = sends (snd (loadTweets fl cfg parse loader maxDate tweetType))
   \<and> sends (snd (loadTweets dryRun sampleConfig sampleParse
                    [Tweets [tweet1d, tweet10d, tweet8d], Tweets []] sampleCutoff Tweet))
     = [tweet10d, tweet8d]"
proof (intro conjI)
  show "sends (snd (loadTweets fl cfg parse loader maxDate tweetType))
     = filter (\<lambda>tw. allowTweet parse tw maxDate)
         (concat (map tweets_of
            (take (length (calls (snd (loadTweets fl cfg parse loader maxDate tweetType))))
               loader)))"
    using loop_consumed [of fl parse maxDate tweetType "init_state cfg" loader]
    by (simp add: loadTweets_obs)
next
  show "recvs (removeTweets fl twitter parse
              (sends (snd (loadTweets fl cfg parse loader maxDate tweetType))) tweetType)
     = sends (snd (loadTweets fl cfg parse loader maxDate tweetType))"
    by (rule recvs_removeTweets)
next
  show "sends (snd (loadTweets dryRun sampleConfig sampleParse
                    [Tweets [tweet1d, tweet10d, tweet8d], Tweets []] sampleCutoff Tweet))
     = [tweet10d, tweet8d]"
    by (simp add: scenario_run)
qed

section \<open>Paginator: leaving the loop\<close>

lemma iteration_errorCount_nonneg:
  "0 \<le> errorCount st \<Longrightarrow>
   0 \<le> errorCount (fst (snd (iteration fl parse maxDate tweetType st r)))"
  by (cases r) (simp_all add: iteration_def Let_def case_prod_beta)

lemma loop_errorCount_nonneg:
  "0 \<le> errorCount st \<Longrightarrow>
   0 \<le> errorCount (fst (snd (loop fl parse maxDate tweetType st script)))"
proof (induction script arbitrary: st)
  case Nil
  then show ?case by simp
next
  case (Cons r rs)
  from Cons.IH [OF iteration_errorCount_nonneg [OF Cons.prems, of fl parse maxDate tweetType r]]
       iteration_errorCount_nonneg [OF Cons.prems, of fl parse maxDate tweetType r]
  show ?case
    by (simp add: loop_Cons Let_def del: loop.simps)
qed

lemma iteration_Err:
  "iteration fl parse maxDate tweetType st (Err e) =
     (if maxErrorCount \<le> errorCount st + 1 then Break else Continue,
      st\<lparr>errorCount := errorCount st + 1\<rparr>,
      [Printf ''Error retrieving %ss: %s\<newline>'' [S tweetType, S e]])"
  by (simp add: iteration_def Let_def)

text \<open>Three errors in a row end the loop, at the third error at the latest.\<close>

lemma loop_three_errors:
  assumes "0 \<le> errorCount st"
  shows "fst (loop fl parse maxDate tweetType st (Err e1 # Err e2 # Err e3 # later))
       \<and> loop fl parse maxDate tweetType st (Err e1 # Err e2 # Err e3 # later)
           = loop fl parse maxDate tweetType st [Err e1, Err e2, Err e3]
       \<and> sends (snd (snd (loop fl parse maxDate tweetType st
                             (Err e1 # Err e2 # Err e3 # later)))) = []
       \<and> length (calls (snd (snd (loop fl parse maxDate tweetType st
                                     (Err e1 # Err e2 # Err e3 # later))))) \<le> 3"
  using assms
  by (simp add: loop_Cons iteration_Err Let_def maxErrorCount_def del: loop.simps)

lemma loop_empty_page:
  "loop fl parse maxDate tweetType st (Tweets [] # later)
     = (True, st, Call_loader (params st)
          # (if debug fl
             then [Printf ''Retrieved %ss: %d %d\<newline>''
                     [S tweetType, D 0, D (sint (minID st))]]
             else []))"
  by (simp add: iteration_def)

lemma sampleResults_run:
  "loadTweets dryRun sampleConfig sampleParse sampleResults sampleCutoff Tweet
   = (False,
      [Call_loader \<lparr>screen_name = ''user'', count = ''200'', include_rts = ''1'', max_id = None\<rparr>,
       Send tweet10d, Send tweet8d,
       Call_loader \<lparr>screen_name = ''user'', count = ''200'', include_rts = ''1'', max_id = Some 99\<rparr>,
       Printf ''Error retrieving %ss: %s\<newline>'' [S ''Tweet'', S ''timeout''],
       Call_loader \<lparr>screen_name = ''user'', count = ''200'', include_rts = ''1'', max_id = Some 99\<rparr>,
       Printf ''Error retrieving %ss: %s\<newline>'' [S ''Tweet'', S ''timeout''],
       Call_loader \<lparr>screen_name = ''user'', count = ''200'', include_rts = ''1'', max_id = Some 99\<rparr>,
       Send tweetBad])"
  by (simp add: loadTweets_def init_state_def iteration_def dryRun_def sampleConfig_def
        allowTweet_def time_Parse_def Before_def sampleParse_def tweet1d_def tweet10d_def
        tweet8d_def tweetBad_def sampleCutoff_def word_sless_alt sampleResults_def
        maxErrorCount_def zeroTime_def Tweet_def)

text \<open>
  C4. Let \<open>loadTweets\<close> still be in its loop after the results \<open>pre\<close>. If the next
  calls of the loader return errors three times in a row, then \<open>loadTweets\<close> returns;
  it asks for no result after the third error (the run does not depend on \<open>later\<close>
  and has at most three calls after those of \<open>pre\<close>); it closes the channel exactly
  once; and the tweets sent are exactly the allowed tweets of the pages in \<open>pre\<close>.
  A page with at least one tweet sets the error counter to zero and the loop goes on.
  An error that leaves the counter below the threshold changes nothing but the
  counter, and the next event after its message is a call of the loader with the
  same parameters.
\<close>

theorem C4_three_errors_stop:
  assumes "\<not> fst (loadTweets fl cfg parse pre maxDate tweetType)"
  shows "fst (loadTweets fl cfg parse (pre @ Err e1 # Err e2 # Err e3 # later) maxDate tweetType)
     \<and> loadTweets fl cfg parse (pre @ Err e1 # Err e2 # Err e3 # later) maxDate tweetType
         = loadTweets fl cfg parse (pre @ [Err e1, Err e2, Err e3]) maxDate tweetType
     \<and> length (calls (snd (loadTweets fl cfg parse (pre @ Err e1 # Err e2 # Err e3 # later)
                              maxDate tweetType)))
         \<le> length pre + 3
     \<and> count_list (snd (loadTweets fl cfg parse (pre @ Err e1 # Err e2 # Err e3 # later)
                           maxDate tweetType)) Close = 1
     \<and> sends (snd (loadTweets fl cfg parse (pre @ Err e1 # Err e2 # Err e3 # later)
                      maxDate tweetType))
         = filter (\<lambda>tw. allowTweet parse tw maxDate) (concat (map tweets_of pre))
     \<and> (tweets \<noteq> [] \<longrightarrow>
           fst (iteration fl parse maxDate tweetType st (Tweets tweets)) = Continue
         \<and> errorCount (fst (snd (iteration fl parse maxDate tweetType st (Tweets tweets)))) = 0)
     \<and> (errorCount st + 1 < maxErrorCount \<longrightarrow>
           iteration fl parse maxDate tweetType st (Err e)
             = (Continue, st\<lparr>errorCount := errorCount st + 1\<rparr>,
                [Printf ''Error retrieving %ss: %s\<newline>'' [S tweetType, S e]])
         \<and> take 3 (snd (snd (loop fl parse maxDate tweetType st (Err e # r # rs))))
             = [Call_loader (params st),
                Printf ''Error retrieving %ss: %s\<newline>'' [S tweetType, S e],
                Call_loader (params st)])"
proof -
  let ?l = "loop fl parse maxDate tweetType (init_state cfg) pre"
  let ?st = "fst (snd ?l)"
  let ?full = "loop fl parse maxDate tweetType (init_state cfg)
                 (pre @ Err e1 # Err e2 # Err e3 # later)"
  from assms have run: "\<not> fst ?l"
    by (simp add: loadTweets_obs)
  have nn: "0 \<le> errorCount ?st"
    by (rule loop_errorCount_nonneg) (simp add: init_state_def)
  have three:
    "fst (loop fl parse maxDate tweetType ?st (Err e1 # Err e2 # Err e3 # later))"
    "fst (loop fl parse maxDate tweetType ?st [Err e1, Err e2, Err e3])"
    "loop fl parse maxDate tweetType ?st (Err e1 # Err e2 # Err e3 # later)
       = loop fl parse maxDate tweetType ?st [Err e1, Err e2, Err e3]"
    "sends (snd (snd (loop fl parse maxDate tweetType ?st [Err e1, Err e2, Err e3]))) = []"
    "length (calls (snd (snd (loop fl parse maxDate tweetType ?st [Err e1, Err e2, Err e3]))))
       \<le> 3"
    using loop_three_errors [OF nn, of fl parse maxDate tweetType e1 e2 e3 later]
          loop_three_errors [OF nn, of fl parse maxDate tweetType e1 e2 e3 "[]"]
    by metis+
  note cons = loop_consumed [of fl parse maxDate tweetType "init_state cfg" pre]
  have eq: "?full = loop fl parse maxDate tweetType (init_state cfg) (pre @ [Err e1, Err e2, Err e3])"
    using three by (simp add: loop_running_append [OF run] Let_def del: loop.simps)
  have fin: "fst ?full"
    using three by (simp add: loop_running_append [OF run] Let_def del: loop.simps)
  have c: "length (calls (snd (snd ?full))) \<le> length pre + 3"
    using three cons run
    by (simp add: loop_running_append [OF run] Let_def calls_append del: loop.simps)
  have s: "sends (snd (snd ?full))
         = filter (\<lambda>tw. allowTweet parse tw maxDate) (concat (map tweets_of pre))"
    using three cons run
    by (simp add: loop_running_append [OF run] Let_def sends_append del: loop.simps)
  have reset: "tweets \<noteq> [] \<longrightarrow>
           fst (iteration fl parse maxDate tweetType st (Tweets tweets)) = Continue
         \<and> errorCount (fst (snd (iteration fl parse maxDate tweetType st (Tweets tweets)))) = 0"
    by (simp add: iteration_def Let_def case_prod_beta)
  have retry: "errorCount st + 1 < maxErrorCount \<longrightarrow>
           iteration fl parse maxDate tweetType st (Err e)
             = (Continue, st\<lparr>errorCount := errorCount st + 1\<rparr>,
                [Printf ''Error retrieving %ss: %s\<newline>'' [S tweetType, S e]])
         \<and> take 3 (snd (snd (loop fl parse maxDate tweetType st (Err e # r # rs))))
             = [Call_loader (params st),
                Printf ''Error retrieving %ss: %s\<newline>'' [S tweetType, S e],
                Call_loader (params st)]"
    by (simp add: loop_Cons iteration_Err Let_def del: loop.simps)
  have main_part:
    "fst (loadTweets fl cfg parse (pre @ Err e1 # Err e2 # Err e3 # later) maxDate tweetType)
     \<and> loadTweets fl cfg parse (pre @ Err e1 # Err e2 # Err e3 # later) maxDate tweetType
         = loadTweets fl cfg parse (pre @ [Err e1, Err e2, Err e3]) maxDate tweetType
     \<and> length (calls (snd (loadTweets fl cfg parse (pre @ Err e1 # Err e2 # Err e3 # later)
                              maxDate tweetType)))
         \<le> length pre + 3
     \<and> count_list (snd (loadTweets fl cfg parse (pre @ Err e1 # Err e2 # Err e3 # later)
                           maxDate tweetType)) Close = 1
     \<and> sends (snd (loadTweets fl cfg parse (pre @ Err e1 # Err e2 # Err e3 # later)
                      maxDate tweetType))
         = filter (\<lambda>tw. allowTweet parse tw maxDate) (concat (map tweets_of pre))"
    using eq fin c s by (simp add: loadTweets_obs) (simp add: loadTweets_def)
  from main_part reset retry show ?thesis by blast
qed

theorem C4_three_errors_stop_witness:
  "\<not> fst (loadTweets dryRun sampleConfig sampleParse sampleResults sampleCutoff Tweet)
   \<and> [tweetBad] \<noteq> []
   \<and> errorCount (init_state sampleConfig) + 1 < maxErrorCount
   \<and> fst (loadTweets dryRun sampleConfig sampleParse
             (sampleResults @ Err ''a'' # Err ''b'' # Err ''c'' # [Tweets [tweet7d]])
             sampleCutoff Tweet)
   \<and> count_list (snd (loadTweets dryRun sampleConfig sampleParse
             (sampleResults @ Err ''a'' # Err ''b'' # Err ''c'' # [Tweets [tweet7d]])
             sampleCutoff Tweet)) Close = 1
   \<and> sends (snd (loadTweets dryRun sampleConfig sampleParse
             (sampleResults @ Err ''a'' # Err ''b'' # Err ''c'' # [Tweets [tweet7d]])
             sampleCutoff Tweet)) = [tweet10d, tweet8d, tweetBad]"
proof -
  have h: "\<not> fst (loadTweets dryRun sampleConfig sampleParse sampleResults sampleCutoff Tweet)"
    by (simp add: sampleResults_run)
  have g: "[tweetBad] \<noteq> []" "errorCount (init_state sampleConfig) + 1 < maxErrorCount"
    by (simp_all add: init_state_def maxErrorCount_def)
  have f: "filter (\<lambda>tw. allowTweet sampleParse tw sampleCutoff)
             (concat (map tweets_of sampleResults)) = [tweet10d, tweet8d, tweetBad]"
    by (simp add: sampleResults_def allowTweet_def time_Parse_def Before_def sampleParse_def
          tweet1d_def tweet10d_def tweet8d_def tweetBad_def sampleCutoff_def zeroTime_def)
  note t = C4_three_errors_stop
         [where fl = dryRun and cfg = sampleConfig and parse = sampleParse
            and pre = sampleResults and maxDate = sampleCutoff and tweetType = Tweet
            and ?e1.0 = "''a''" and ?e2.0 = "''b''" and ?e3.0 = "''c''"
            and later = "[Tweets [tweet7d]]" and tweets = "[tweetBad]"
            and st = "init_state sampleConfig" and e = "''d''" and r = "Tweets []"
            and rs = "[]", OF h]
  from t have 1: "fst (loadTweets dryRun sampleConfig sampleParse
             (sampleResults @ Err ''a'' # Err ''b'' # Err ''c'' # [Tweets [tweet7d]])
             sampleCutoff Tweet)"
    by blast
  from t have 2: "count_list (snd (loadTweets dryRun sampleConfig sampleParse
             (sampleResults @ Err ''a'' # Err ''b'' # Err ''c'' # [Tweets [tweet7d]])
             sampleCutoff Tweet)) Close = 1"
    by blast
  from t have 3: "sends (snd (loadTweets dryRun sampleConfig sampleParse
             (sampleResults @ Err ''a'' # Err ''b'' # Err ''c'' # [Tweets [tweet7d]])
             sampleCutoff Tweet))
      = filter (\<lambda>tw. allowTweet sampleParse tw sampleCutoff)
          (concat (map tweets_of sampleResults))"
    by blast
  from 1 2 3 [unfolded f] h g show ?thesis by blast
qed

text \<open>
  C7. Let \<open>loadTweets\<close> still be in its loop after the results \<open>pre\<close>, whatever
  errors \<open>pre\<close> holds. If the next call of the loader returns a page without tweets,
  then \<open>loadTweets\<close> returns after this call, closes the channel exactly once and
  sends nothing more. In every state of the loop, so for every value of the error
  counter, an empty page ends the loop.
\<close>

theorem C7_empty_page_stops:
  assumes "\<not> fst (loadTweets fl cfg parse pre maxDate tweetType)"
  shows "fst (loadTweets fl cfg parse (pre @ Tweets [] # later) maxDate tweetType)
     \<and> loadTweets fl cfg parse (pre @ Tweets [] # later) maxDate tweetType
         = loadTweets fl cfg parse (pre @ [Tweets []]) maxDate tweetType
     \<and> length (calls (snd (loadTweets fl cfg parse (pre @ Tweets [] # later) maxDate tweetType)))
         = length pre + 1
     \<and> count_list (snd (loadTweets fl cfg parse (pre @ Tweets [] # later) maxDate tweetType))
         Close = 1
     \<and> sends (snd (loadTweets fl cfg parse (pre @ Tweets [] # later) maxDate tweetType))
         = sends (snd (loadTweets fl cfg parse pre maxDate tweetType))
     \<and> fst (iteration fl parse maxDate tweetType st (Tweets [])) = Break"
proof -
  let ?l = "loop fl parse maxDate tweetType (init_state cfg) pre"
  let ?full = "loop fl parse maxDate tweetType (init_state cfg) (pre @ Tweets [] # later)"
  from assms have run: "\<not> fst ?l"
    by (simp add: loadTweets_obs)
  note cons = loop_consumed [of fl parse maxDate tweetType "init_state cfg" pre]
  have eq: "?full = loop fl parse maxDate tweetType (init_state cfg) (pre @ [Tweets []])"
    by (simp add: loop_running_append [OF run] loop_empty_page Let_def del: loop.simps)
  have fin: "fst ?full"
    by (simp add: loop_running_append [OF run] loop_empty_page Let_def del: loop.simps)
  have c: "length (calls (snd (snd ?full))) = length pre + 1"
    using cons run
    by (simp add: loop_running_append [OF run] loop_empty_page Let_def calls_append
          del: loop.simps)
  have s: "sends (snd (snd ?full)) = sends (snd (snd ?l))"
    by (simp add: loop_running_append [OF run] loop_empty_page Let_def sends_append
          del: loop.simps)
  have b: "fst (iteration fl parse maxDate tweetType st (Tweets [])) = Break"
    by (simp add: iteration_def)
  show ?thesis
    using eq fin c s b by (simp add: loadTweets_obs) (simp add: loadTweets_def)
qed

lemma failures_before_empty_page:
  "\<not> fst (loadTweets dryRun sampleConfig sampleParse [] sampleCutoff Tweet)"
  "\<not> fst (loadTweets dryRun sampleConfig sampleParse [Err ''a''] sampleCutoff Tweet)"
  "\<not> fst (loadTweets dryRun sampleConfig sampleParse [Err ''a'', Err ''b''] sampleCutoff Tweet)"
  by (simp_all add: loadTweets_def init_state_def iteration_def maxErrorCount_def)

theorem C7_empty_page_stops_witness:
  "\<not> fst (loadTweets dryRun sampleConfig sampleParse [] sampleCutoff Tweet)
   \<and> \<not> fst (loadTweets dryRun sampleConfig sampleParse [Err ''a''] sampleCutoff Tweet)
   \<and> \<not> fst (loadTweets dryRun sampleConfig sampleParse [Err ''a'', Err ''b''] sampleCutoff Tweet)
   \<and> fst (loadTweets dryRun sampleConfig sampleParse ([] @ Tweets [] # [Tweets [tweet8d]])
            sampleCutoff Tweet)
   \<and> fst (loadTweets dryRun sampleConfig sampleParse
            ([Err ''a''] @ Tweets [] # [Tweets [tweet8d]]) sampleCutoff Tweet)
   \<and> fst (loadTweets dryRun sampleConfig sampleParse
            ([Err ''a'', Err ''b''] @ Tweets [] # [Tweets [tweet8d]]) sampleCutoff Tweet)
   \<and> count_list (snd (loadTweets dryRun sampleConfig sampleParse
            ([Err ''a'', Err ''b''] @ Tweets [] # [Tweets [tweet8d]]) sampleCutoff Tweet))
        Close = 1"
  using failures_before_empty_page
    C7_empty_page_stops [OF failures_before_empty_page(1), of "[Tweets [tweet8d]]"]
    C7_empty_page_stops [OF failures_before_empty_page(2), of "[Tweets [tweet8d]]"]
    C7_empty_page_stops [OF failures_before_empty_page(3), of "[Tweets [tweet8d]]"]
  by blast

section \<open>Paginator: the cursor\<close>

text \<open>Decrementing an identifier other than the least \<open>int64\<close> does not wrap.\<close>

lemma sint_dec:
  fixes x :: int64
  assumes "- (2 ^ 63) < sint x"
  shows "sint (x - 1) = sint x - 1"
proof -
  have "sint x < 2 ^ 63"
    using sint_lt [of x] by simp
  with assms show ?thesis
    by (simp add: sint_word_ariths signed_take_bit_int_eq_self)
qed

lemma range_tweets_fst_Cons:
  "fst (range_tweets parse maxDate m (tw # tws))
     = fst (range_tweets parse maxDate (if m = 0 \<or> Id_tw tw <s m then Id_tw tw else m) tws)"
  by (simp add: Let_def case_prod_beta)

lemma range_tweets_fst:
  assumes "m \<noteq> 0" and "\<forall>tw \<in> set tws. Id_tw tw \<noteq> 0"
  shows "fst (range_tweets parse maxDate m tws) \<noteq> 0
       \<and> (fst (range_tweets parse maxDate m tws) = m
            \<or> fst (range_tweets parse maxDate m tws) \<in> Id_tw ` set tws)
       \<and> sint (fst (range_tweets parse maxDate m tws)) \<le> sint m
       \<and> (\<forall>tw \<in> set tws. sint (fst (range_tweets parse maxDate m tws)) \<le> sint (Id_tw tw))"
  using assms
proof (induction tws arbitrary: m)
  case Nil
  then show ?case by simp
next
  case (Cons tw tws)
  let ?m' = "if Id_tw tw <s m then Id_tw tw else m"
  from Cons.prems have m': "?m' \<noteq> 0" by simp
  from Cons.prems have ids: "\<forall>tw \<in> set tws. Id_tw tw \<noteq> 0" by simp
  have eq: "fst (range_tweets parse maxDate m (tw # tws)) = fst (range_tweets parse maxDate ?m' tws)"
    using Cons.prems by (simp add: range_tweets_fst_Cons del: range_tweets.simps)
  have le: "sint ?m' \<le> sint m" "sint ?m' \<le> sint (Id_tw tw)" "?m' = m \<or> ?m' = Id_tw tw"
    by (simp_all add: word_sless_alt)
  from Cons.IH [OF m' ids] le show ?case
    unfolding eq by (auto simp del: range_tweets.simps)
qed


lemma min_id_in: "tws \<noteq> [] \<Longrightarrow> min_id tws \<in> sint ` Id_tw ` set tws"
  unfolding min_id_def by (rule Min_in) simp_all

lemma min_id_le: "tw \<in> set tws \<Longrightarrow> min_id tws \<le> sint (Id_tw tw)"
  unfolding min_id_def by (rule Min_le) simp_all

lemma min_id_eqI:
  assumes "x \<in> Id_tw ` set tws" and "\<forall>tw \<in> set tws. sint x \<le> sint (Id_tw tw)"
  shows "sint x = min_id tws"
proof -
  have "Min (sint ` Id_tw ` set tws) = sint x"
    using assms by (intro Min_eqI) auto
  then show ?thesis by (simp add: min_id_def)
qed

lemma range_tweets_min:
  assumes ne: "tws \<noteq> []"
      and ids: "\<forall>tw \<in> set tws. Id_tw tw \<noteq> 0"
      and m: "m = 0 \<or> min_id tws \<le> sint m"
  shows "fst (range_tweets parse maxDate m tws) \<in> Id_tw ` set tws
       \<and> sint (fst (range_tweets parse maxDate m tws)) = min_id tws"
proof (cases "m = 0")
  case True
  from ne obtain tw rest where tws: "tws = tw # rest" by (cases tws) auto
  let ?r = "fst (range_tweets parse maxDate (Id_tw tw) rest)"
  have eq: "fst (range_tweets parse maxDate m tws) = ?r"
    using True by (simp add: tws range_tweets_fst_Cons del: range_tweets.simps)
  from ids have "Id_tw tw \<noteq> 0" "\<forall>tw \<in> set rest. Id_tw tw \<noteq> 0" by (simp_all add: tws)
  from range_tweets_fst [OF this, of parse maxDate]
  have mem: "?r \<in> Id_tw ` set tws" and low: "\<forall>tw \<in> set tws. sint ?r \<le> sint (Id_tw tw)"
    by (auto simp add: tws simp del: range_tweets.simps)
  from mem min_id_eqI [OF mem low] show ?thesis
    unfolding eq by simp
next
  case False
  let ?r = "fst (range_tweets parse maxDate m tws)"
  from range_tweets_fst [OF False ids, of parse maxDate]
  have alt: "?r = m \<or> ?r \<in> Id_tw ` set tws" and lem: "sint ?r \<le> sint m"
    and low: "\<forall>tw \<in> set tws. sint ?r \<le> sint (Id_tw tw)"
    by blast+
  from min_id_in [OF ne] obtain tw where tw: "tw \<in> set tws" "min_id tws = sint (Id_tw tw)"
    by auto
  have mem: "?r \<in> Id_tw ` set tws"
  proof (cases "?r = m")
    case True
    from m False have "min_id tws \<le> sint m" by simp
    moreover from low tw have "sint ?r \<le> min_id tws" by simp
    ultimately have "sint ?r = sint (Id_tw tw)" using True tw by simp
    then have "?r = Id_tw tw" by (rule signed_word_eqI)
    with tw show ?thesis by simp
  next
    case False
    with alt show ?thesis by simp
  qed
  from mem min_id_eqI [OF mem low] show ?thesis by simp
qed

text \<open>One turn on a page with tweets.\<close>

lemma iteration_page:
  assumes ne: "p \<noteq> []"
      and ids: "\<forall>tw \<in> set p. Id_tw tw \<noteq> 0 \<and> - (2 ^ 63) < sint (Id_tw tw)"
      and m: "minID st = 0 \<or> min_id p \<le> sint (minID st)"
  shows "fst (iteration fl parse maxDate tweetType st (Tweets p)) = Continue
       \<and> sint (minID (fst (snd (iteration fl parse maxDate tweetType st (Tweets p))))) = min_id p - 1
       \<and> max_id (params (fst (snd (iteration fl parse maxDate tweetType st (Tweets p)))))
           = Some (minID (fst (snd (iteration fl parse maxDate tweetType st (Tweets p)))))"
proof -
  let ?r = "fst (range_tweets parse maxDate (minID st) p)"
  from ids have ids0: "\<forall>tw \<in> set p. Id_tw tw \<noteq> 0" by simp
  from range_tweets_min [OF ne ids0 m, of parse maxDate]
  have mem: "?r \<in> Id_tw ` set p" and r: "sint ?r = min_id p" by simp_all
  from mem ids have "- (2 ^ 63) < sint ?r" by auto
  from sint_dec [OF this] r have "sint (?r - 1) = min_id p - 1" by simp
  with ne show ?thesis
    by (simp add: iteration_def Let_def case_prod_beta)
qed

lemma loop_last_call:
  "calls (snd (snd (loop fl parse maxDate tweetType st [r]))) = [params st]"
  by (simp add: loop_Cons [of _ _ _ _ _ _ "[]"] Let_def calls_append iteration_calls
        del: loop.simps(2))

lemma loop_pages:
  assumes "\<forall>p \<in> set pages. p \<noteq> []"
      and "\<forall>p \<in> set pages. \<forall>tw \<in> set p. Id_tw tw \<noteq> 0 \<and> - (2 ^ 63) < sint (Id_tw tw)"
      and "sorted_wrt (\<lambda>p q. min_id q < min_id p) pages"
      and "\<forall>p \<in> set pages. minID st = 0 \<or> min_id p \<le> sint (minID st)"
  shows "map (map_option sint \<circ> max_id)
           (calls (snd (snd (loop fl parse maxDate tweetType st (map Tweets pages @ [r])))))
         = map_option sint (max_id (params st)) # map (\<lambda>p. Some (min_id p - 1)) pages"
  using assms
proof (induction pages arbitrary: st)
  case Nil
  show ?case
    using loop_last_call [of fl parse maxDate tweetType st r] by simp
next
  case (Cons p pages)
  let ?it = "iteration fl parse maxDate tweetType st (Tweets p)"
  let ?st' = "fst (snd ?it)"
  from Cons.prems have ne: "p \<noteq> []"
    and ids: "\<forall>tw \<in> set p. Id_tw tw \<noteq> 0 \<and> - (2 ^ 63) < sint (Id_tw tw)"
    and m: "minID st = 0 \<or> min_id p \<le> sint (minID st)"
    by auto
  from iteration_page [OF ne ids m, of fl parse maxDate tweetType]
  have cont: "fst ?it = Continue" and mid: "sint (minID ?st') = min_id p - 1"
    and cur: "max_id (params ?st') = Some (minID ?st')"
    by simp_all
  from Cons.prems(3) have lt: "\<forall>q \<in> set pages. min_id q < min_id p" by simp
  have H: "\<forall>q \<in> set pages. minID ?st' = 0 \<or> min_id q \<le> sint (minID ?st')"
    using lt mid by auto
  from Cons.prems have rest:
    "\<forall>p \<in> set pages. p \<noteq> []"
    "\<forall>p \<in> set pages. \<forall>tw \<in> set p. Id_tw tw \<noteq> 0 \<and> - (2 ^ 63) < sint (Id_tw tw)"
    "sorted_wrt (\<lambda>p q. min_id q < min_id p) pages"
    by simp_all
  from Cons.IH [OF rest H] cont mid cur show ?case
    by (simp add: loop_Cons Let_def calls_append iteration_calls del: loop.simps)
qed


lemma map_filter_Some:
  "map g cs = None # map Some xs \<Longrightarrow> List.map_filter g cs = xs"
proof -
  have a: "List.map_filter g cs = List.map_filter id (map g cs)"
    by (induction cs) (simp_all add: List.map_filter_simps split: option.splits)
  have b: "List.map_filter id (map Some xs) = xs"
    by (induction xs) (simp_all add: List.map_filter_simps)
  assume "map g cs = None # map Some xs"
  with a b show ?thesis by (simp add: List.map_filter_simps)
qed

lemma map_map_filter:
  "map f (List.map_filter g cs) = List.map_filter (map_option f \<circ> g) cs"
  by (induction cs) (simp_all add: List.map_filter_simps split: option.splits)

text \<open>With decreasing page minima, the least identifier seen so far is that of the last page.\<close>

lemma min_id_seen:
  assumes ne: "\<forall>p \<in> set pages. p \<noteq> []"
      and dec: "sorted_wrt (\<lambda>p q. min_id q < min_id p) pages"
      and k: "k < length pages"
  shows "min_id (concat (take (Suc k) pages)) = min_id (pages ! k)"
proof -
  from k ne have nek: "pages ! k \<noteq> []" by simp
  from min_id_in [OF nek] obtain tw where tw: "tw \<in> set (pages ! k)"
    "min_id (pages ! k) = sint (Id_tw tw)" by auto
  have kin: "pages ! k \<in> set (take (Suc k) pages)"
    using k by (auto simp add: in_set_conv_nth intro!: exI [of _ k])
  have mem: "Id_tw tw \<in> Id_tw ` set (concat (take (Suc k) pages))"
    using tw(1) kin by auto
  have low: "\<forall>u \<in> set (concat (take (Suc k) pages)). sint (Id_tw tw) \<le> sint (Id_tw u)"
  proof
    fix u assume "u \<in> set (concat (take (Suc k) pages))"
    then obtain q where q: "q \<in> set (take (Suc k) pages)" "u \<in> set q" by auto
    from q(1) k obtain j where j: "j \<le> k" "q = pages ! j"
      by (auto simp add: in_set_conv_nth less_Suc_eq_le)
    have "min_id (pages ! k) \<le> min_id (pages ! j)"
    proof (cases "j = k")
      case True
      then show ?thesis by simp
    next
      case False
      with j have "j < k" by simp
      with dec k have "min_id (pages ! k) < min_id (pages ! j)"
        by (simp add: sorted_wrt_iff_nth_less)
      then show ?thesis by simp
    qed
    also from q(2) j have "min_id (pages ! j) \<le> sint (Id_tw u)"
      by (simp add: min_id_le)
    finally show "sint (Id_tw tw) \<le> sint (Id_tw u)" by (simp add: tw)
  qed
  from min_id_eqI [OF mem low] tw show ?thesis by simp
qed

text \<open>
  C3 (as amended). Let the loader return the pages \<open>pages\<close>, each with at least one
  tweet, and then any result \<open>r\<close>. Let no identifier be 0, the value that
  \<open>loadTweets\<close> keeps in \<open>minID\<close> while no identifier has been seen, and none be the
  least \<open>int64\<close>; and let the least identifiers of the pages decrease strictly. Then
  the first call of the loader carries no \<open>max_id\<close>, and the call after the page
  number \<open>k\<close> carries the least identifier of the pages up to \<open>k\<close>, minus one; these
  values decrease strictly; and every tweet of every page goes through the filter
  once, in order, so that the tweets sent are the allowed tweets of \<open>pages\<close> and \<open>r\<close>.
\<close>

theorem C3_cursor_decreases:
  assumes ne: "\<forall>p \<in> set pages. p \<noteq> []"
      and ids: "\<forall>p \<in> set pages. \<forall>tw \<in> set p. Id_tw tw \<noteq> 0 \<and> - (2 ^ 63) < sint (Id_tw tw)"
      and dec: "sorted_wrt (\<lambda>p q. min_id q < min_id p) pages"
  shows "map (map_option sint \<circ> max_id)
           (calls (snd (loadTweets fl cfg parse (map Tweets pages @ [r]) maxDate tweetType)))
         = None # map (\<lambda>k. Some (min_id (concat (take (Suc k) pages)) - 1)) [0..<length pages]
       \<and> sorted_wrt (\<lambda>c d. d <s c)
           (cursors (snd (loadTweets fl cfg parse (map Tweets pages @ [r]) maxDate tweetType)))
       \<and> sends (snd (loadTweets fl cfg parse (map Tweets pages @ [r]) maxDate tweetType))
         = filter (\<lambda>tw. allowTweet parse tw maxDate) (concat pages @ tweets_of r)"
proof -
  let ?evs = "snd (loadTweets fl cfg parse (map Tweets pages @ [r]) maxDate tweetType)"
  have H: "\<forall>p \<in> set pages. minID (init_state cfg) = 0 \<or> min_id p \<le> sint (minID (init_state cfg))"
    by (simp add: init_state_def)
  from loop_pages [OF ne ids dec H, of fl parse maxDate tweetType r]
  have c: "map (map_option sint \<circ> max_id) (calls ?evs)
             = None # map (\<lambda>p. Some (min_id p - 1)) pages"
    by (simp add: loadTweets_obs init_state_def)
  have seen: "map (\<lambda>k. Some (min_id (concat (take (Suc k) pages)) - 1)) [0..<length pages]
                = map (\<lambda>p. Some (min_id p - 1)) pages"
    by (rule nth_equalityI) (simp_all add: min_id_seen [OF ne dec])
  have len: "length (calls ?evs) = Suc (length pages)"
    using arg_cong [OF c, of length] by simp
  have cs: "map sint (cursors ?evs) = map (\<lambda>p. min_id p - 1) pages"
    using map_filter_Some [of "map_option sint \<circ> max_id" "calls ?evs" "map (\<lambda>p. min_id p - 1) pages"] c
    by (simp add: cursors_def map_map_filter comp_def)
  have "sorted_wrt (\<lambda>a b. b < a) (map sint (cursors ?evs))"
    unfolding cs using dec by (simp add: sorted_wrt_map)
  then have d: "sorted_wrt (\<lambda>c d. d <s c) (cursors ?evs)"
    by (simp add: sorted_wrt_map word_sless_alt)
  have s: "sends ?evs = filter (\<lambda>tw. allowTweet parse tw maxDate) (concat pages @ tweets_of r)"
    using loop_consumed [of fl parse maxDate tweetType "init_state cfg" "map Tweets pages @ [r]"]
      len
    by (simp add: loadTweets_obs comp_def)
  from c seen d s show ?thesis by simp
qed

theorem C3_cursor_decreases_witness:
  "sorted_wrt (\<lambda>p q. min_id q < min_id p) [[tweet1d, tweet10d, tweet8d], [tweetBad]]
   \<and> map (map_option sint \<circ> max_id)
        (calls (snd (loadTweets dryRun sampleConfig sampleParse
                       (map Tweets [[tweet1d, tweet10d, tweet8d], [tweetBad]] @ [Tweets []])
                       sampleCutoff Tweet)))
      = [None, Some 99, Some 49]
   \<and> sorted_wrt (\<lambda>c d. d <s c)
        (cursors (snd (loadTweets dryRun sampleConfig sampleParse
                         (map Tweets [[tweet1d, tweet10d, tweet8d], [tweetBad]] @ [Tweets []])
                         sampleCutoff Tweet)))"
proof -
  have ne: "\<forall>p \<in> set [[tweet1d, tweet10d, tweet8d], [tweetBad]]. p \<noteq> []"
    by simp
  have ids: "\<forall>p \<in> set [[tweet1d, tweet10d, tweet8d], [tweetBad]].
               \<forall>tw \<in> set p. Id_tw tw \<noteq> 0 \<and> - (2 ^ 63) < sint (Id_tw tw)"
    by (simp add: tweet1d_def tweet10d_def tweet8d_def tweetBad_def)
  have m: "min_id [tweet1d, tweet10d, tweet8d] = 100" "min_id [tweetBad] = 50"
    "min_id [tweet1d, tweet10d, tweet8d, tweetBad] = 50"
    by (simp_all add: min_id_def tweet1d_def tweet10d_def tweet8d_def tweetBad_def)
  have dec: "sorted_wrt (\<lambda>p q. min_id q < min_id p) [[tweet1d, tweet10d, tweet8d], [tweetBad]]"
    by (simp add: m)
  have up: "[0..<length [[tweet1d, tweet10d, tweet8d], [tweetBad]]] = [0, 1]"
    by (simp add: upt_rec)
  from C3_cursor_decreases [OF ne ids dec, of dryRun sampleConfig sampleParse "Tweets []"
         sampleCutoff Tweet]
  have "map (map_option sint \<circ> max_id)
        (calls (snd (loadTweets dryRun sampleConfig sampleParse
                       (map Tweets [[tweet1d, tweet10d, tweet8d], [tweetBad]] @ [Tweets []])
                       sampleCutoff Tweet)))
      = [None, Some 99, Some 49]"
   and "sorted_wrt (\<lambda>c d. d <s c)
        (cursors (snd (loadTweets dryRun sampleConfig sampleParse
                         (map Tweets [[tweet1d, tweet10d, tweet8d], [tweetBad]] @ [Tweets []])
                         sampleCutoff Tweet)))"
    unfolding up by (simp_all add: m)
  with dec show ?thesis by blast
qed

text \<open>
  C3 fails as stated. The loader returns one page, with the identifiers 0 and 7, and
  then an empty page. The least identifier seen is 0, so the claim gives the cursor
  \<open>-1\<close>; the second call carries 6.
\<close>

theorem C3_counterexample:
  "sorted_wrt (\<lambda>p q. min_id q < min_id p) [[tweetZero, tweetSeven]]
   \<and> min_id (concat (take (Suc 0) [[tweetZero, tweetSeven]])) - 1 = - 1
   \<and> map (map_option sint \<circ> max_id)
        (calls (snd (loadTweets dryRun sampleConfig sampleParse
                       (map Tweets [[tweetZero, tweetSeven]] @ [Tweets []]) sampleCutoff Tweet)))
      = [None, Some 6]"
  by (simp add: min_id_def loadTweets_def init_state_def iteration_def dryRun_def
        tweetZero_def tweetSeven_def word_sless_alt Let_def)

section \<open>Coordinator: waiting for the workers\<close>

text \<open>
  What a step does: it takes the first event of the goroutine, changes the counter
  by what this event is worth, passes \<open>latch.Wait()\<close> only at counter zero, and
  leaves the events of the other goroutines alone, except for the receiver of a send.
\<close>

lemma step_D:
  assumes "step g s = Some s'"
  obtains e es where "rest s GMain \<noteq> []" "rest s g = e # es" "latch s' = latch s + bal e"
    "e = LatchWait \<longrightarrow> latch s = 0"
    "rest s' = (rest s)(g := es)
     \<or> (\<exists>c tw rs. g = GLoad c \<and> e = Send tw \<and> rest s (GRemove c) = Recv tw # rs
                  \<and> rest s' = (rest s)(g := es, GRemove c := rs))"
proof -
  from assms have m: "rest s GMain \<noteq> []"
    by (simp add: step_def split: if_splits)
  from assms obtain e es where r: "rest s g = e # es"
    by (cases "rest s g") (simp_all add: step_def split: if_splits)
  from assms m r have
    "latch s' = latch s + bal e \<and> (e = LatchWait \<longrightarrow> latch s = 0)
     \<and> (rest s' = (rest s)(g := es)
     \<or> (\<exists>c tw rs. g = GLoad c \<and> e = Send tw \<and> rest s (GRemove c) = Recv tw # rs
                  \<and> rest s' = (rest s)(g := es, GRemove c := rs)))"
    by (cases e; cases g)
       (auto simp add: step_def Let_def split: if_splits list.splits event.splits)
  with m r that show thesis by blast
qed


lemma pending_Cons: "pending (e # es) = bal e + pending es"
  by (simp add: pending_def)

lemma pending_Nil: "pending [] = 0"
  by (simp add: pending_def)

lemma pending_append: "pending (xs @ ys) = pending xs + pending ys"
  by (simp add: pending_def)

lemma step_inv:
  assumes "step g s = Some s'"
  shows "latch s' + outstanding s' = latch s + outstanding s"
    and "suffix (rest s' h) (rest s h)"
    and "rest s' GMain = [] \<Longrightarrow> \<exists>e. rest s GMain = [e] \<and> (e = LatchWait \<longrightarrow> latch s' = 0)"
proof -
  from assms obtain e es where m: "rest s GMain \<noteq> []" and r: "rest s g = e # es"
    and l: "latch s' = latch s + bal e" and w: "e = LatchWait \<longrightarrow> latch s = 0"
    and alt: "rest s' = (rest s)(g := es)
     \<or> (\<exists>c tw rs. g = GLoad c \<and> e = Send tw \<and> rest s (GRemove c) = Recv tw # rs
                  \<and> rest s' = (rest s)(g := es, GRemove c := rs))"
    by (rule step_D)
  from alt show "latch s' + outstanding s' = latch s + outstanding s"
  proof
    assume a: "rest s' = (rest s)(g := es)"
    show ?thesis
    proof (cases g)
      case GMain
      with a r l show ?thesis by (simp add: outstanding_def pending_Cons)
    next
      case (GLoad c)
      with a r l show ?thesis by (cases c) (simp_all add: outstanding_def pending_Cons)
    next
      case (GRemove c)
      with a r l show ?thesis by (cases c) (simp_all add: outstanding_def pending_Cons)
    qed
  next
    assume "\<exists>c tw rs. g = GLoad c \<and> e = Send tw \<and> rest s (GRemove c) = Recv tw # rs
                  \<and> rest s' = (rest s)(g := es, GRemove c := rs)"
    then obtain c tw rs where a: "g = GLoad c" "e = Send tw" "rest s (GRemove c) = Recv tw # rs"
      "rest s' = (rest s)(g := es, GRemove c := rs)" by blast
    with r l show ?thesis
      by (cases c) (simp_all add: outstanding_def pending_Cons)
  qed
  from alt r show "suffix (rest s' h) (rest s h)"
    by (auto simp add: suffix_def)
  show "\<exists>e. rest s GMain = [e] \<and> (e = LatchWait \<longrightarrow> latch s' = 0)" if "rest s' GMain = []"
    using that alt r m l w by (cases "g = GMain") auto
qed

lemma run_inv:
  assumes "run sched s0 = Some s"
  shows "latch s + outstanding s = latch s0 + outstanding s0"
    and "suffix (rest s h) (rest s0 h)"
    and "rest s GMain = [] \<Longrightarrow> rest s0 GMain \<noteq> [] \<Longrightarrow> last (rest s0 GMain) = LatchWait
         \<Longrightarrow> latch s = 0"
  using assms
proof (induction sched arbitrary: s0)
  case Nil
  {
    case 1 then show ?case by simp
  next
    case 2 then show ?case by simp
  next
    case 3 then show ?case by simp
  }
next
  case (Cons g sched)
  {
    case 1
    then obtain s1 where s1: "step g s0 = Some s1" "run sched s1 = Some s"
      by (auto split: option.splits)
    from Cons.IH(1) [OF s1(2)] step_inv(1) [OF s1(1)] show ?case by simp
  next
    case 2
    then obtain s1 where s1: "step g s0 = Some s1" "run sched s1 = Some s"
      by (auto split: option.splits)
    from Cons.IH(2) [OF s1(2)] step_inv(2) [OF s1(1)] show ?case
      by (rule suffix_order.trans)
  next
    case 3
    then obtain s1 where s1: "step g s0 = Some s1" "run sched s1 = Some s"
      by (auto split: option.splits)
    show ?case
    proof (cases "rest s1 GMain = []")
      case True
      from step_inv(3) [OF s1(1) True] obtain e where e: "rest s0 GMain = [e]"
        "e = LatchWait \<longrightarrow> latch s1 = 0" by blast
      with 3 have l1: "latch s1 = 0" by simp
      from True s1(2) have "s = s1"
        by (cases sched) (simp_all add: step_def)
      with l1 show ?thesis by simp
    next
      case False
      from step_inv(2) [OF s1(1), of GMain] have suf: "suffix (rest s1 GMain) (rest s0 GMain)" .
      with False 3 have "last (rest s1 GMain) = LatchWait"
        by (auto simp add: suffix_def)
      from Cons.IH(3) [OF 3(1) False this s1(2)] show ?thesis .
    qed
  }
qed


lemma neutral_suffix:
  assumes "\<forall>e \<in> set xs. bal e = 0" and "suffix ys xs"
  shows "pending ys = 0"
proof -
  from assms(2) have "set ys \<subseteq> set xs" by (rule set_mono_suffix)
  with assms(1) have "\<forall>e \<in> set ys. bal e = 0" by blast
  then show ?thesis
    by (induction ys) (simp_all add: pending_def)
qed

lemma suffix_before_Done:
  assumes "\<forall>e \<in> set xs. bal e = 0" and "suffix ys (xs @ [LatchDone])"
  shows "ys = [] \<or> pending ys = - 1"
proof (cases "ys = []")
  case True
  then show ?thesis by simp
next
  case False
  with assms(2) obtain zs where zs: "ys = zs @ [LatchDone]" "suffix zs xs"
    by (auto simp add: suffix_def append_eq_append_conv2 append_eq_Cons_conv Cons_eq_append_conv)
  from neutral_suffix [OF assms(1) zs(2)] zs(1) show ?thesis
    by (simp add: pending_append pending_Cons pending_Nil)
qed

lemma iteration_neutral:
  "e \<in> set (snd (snd (iteration fl parse maxDate tweetType st r))) \<Longrightarrow> bal e = 0"
  by (cases r)
     (auto simp add: iteration_def Let_def case_prod_beta range_tweets_events split: if_splits)

lemma loop_neutral:
  "e \<in> set (snd (snd (loop fl parse maxDate tweetType st script))) \<Longrightarrow> bal e = 0"
proof (induction script arbitrary: st)
  case Nil
  then show ?case by simp
next
  case (Cons r rs)
  then show ?case
    by (auto simp add: loop_Cons Let_def iteration_neutral simp del: loop.simps split: if_splits)
qed

lemma loadTweets_trace:
  "fst (loadTweets fl cfg parse loader maxDate tweetType) \<Longrightarrow>
     \<exists>xs. snd (loadTweets fl cfg parse loader maxDate tweetType) = xs @ [LatchDone]
          \<and> (\<forall>e \<in> set xs. bal e = 0)"
  "\<not> fst (loadTweets fl cfg parse loader maxDate tweetType) \<Longrightarrow>
     \<forall>e \<in> set (snd (loadTweets fl cfg parse loader maxDate tweetType)). bal e = 0"
proof -
  let ?l = "loop fl parse maxDate tweetType (init_state cfg) loader"
  let ?dbg = "if debug fl then [Printf ''Exiting load %ss\<newline>'' [S tweetType]] else []"
  assume "fst (loadTweets fl cfg parse loader maxDate tweetType)"
  then have "snd (loadTweets fl cfg parse loader maxDate tweetType)
               = (snd (snd ?l) @ [Close] @ ?dbg) @ [LatchDone]"
    by (simp add: loadTweets_def case_prod_beta split: if_splits)
  moreover have "\<forall>e \<in> set (snd (snd ?l) @ [Close] @ ?dbg). bal e = 0"
    by (auto simp add: loop_neutral)
  ultimately show "\<exists>xs. snd (loadTweets fl cfg parse loader maxDate tweetType) = xs @ [LatchDone]
          \<and> (\<forall>e \<in> set xs. bal e = 0)"
    by blast
next
  assume "\<not> fst (loadTweets fl cfg parse loader maxDate tweetType)"
  then show "\<forall>e \<in> set (snd (loadTweets fl cfg parse loader maxDate tweetType)). bal e = 0"
    by (auto simp add: loadTweets_def case_prod_beta loop_neutral split: if_splits)
qed

lemma remove_body_neutral:
  "e \<in> set (remove_body fl twitter parse tweetType tw) \<Longrightarrow> bal e = 0"
  by (auto simp add: remove_body_def Let_def split: if_splits option.splits)

lemma removeTweets_trace:
  "\<exists>xs. removeTweets fl twitter parse stream tweetType = LatchAdd 1 # xs @ [LatchDone]
        \<and> (\<forall>e \<in> set xs. bal e = 0)"
proof -
  let ?xs = "concat (map (remove_body fl twitter parse tweetType) stream) @ [RangeEnd]
             @ (if debug fl then [Printf ''Exiting log %ss\<newline>'' [S tweetType]] else [])"
  have "removeTweets fl twitter parse stream tweetType = LatchAdd 1 # ?xs @ [LatchDone]"
    by (simp add: removeTweets_def)
  moreover have "\<forall>e \<in> set ?xs. bal e = 0"
    by (auto simp add: remove_body_neutral)
  ultimately show ?thesis by blast
qed

lemma main_trace:
  "main fl (Some cfg) now1 now2 \<noteq> []"
  "last (main fl (Some cfg) now1 now2) = LatchWait"
  "pending (main fl (Some cfg) now1 now2) = 2"
  by (simp_all add: main_def Let_def pending_def)


text \<open>
  What holds of the wait, for every schedule and every behaviour of the two loaders:
  when \<open>main\<close> has returned, each \<open>loadTweets\<close> has returned too, with its
  \<open>latch.Done()\<close> performed, and each \<open>removeTweets\<close> has either performed all its
  events or none of them. So \<open>main\<close> never returns while a \<open>removeTweets\<close> that has
  called \<open>latch.Add(1)\<close> is still at work.
\<close>

lemma main_returns_after_loaders:
  assumes run: "run sched (start fl (Some cfg) parse twitter now1 now2 loader) = Some s"
      and ret: "rest s GMain = []"
  shows "rest s (GLoad c) = []
       \<and> fst (loadTweets fl cfg parse (loader c)
                (maxDate_of (main_filter fl cfg now1 now2) c) (tweetType_of c))
       \<and> (rest s (GRemove c) = []
            \<or> rest s (GRemove c)
                = rest (start fl (Some cfg) parse twitter now1 now2 loader) (GRemove c))"
proof -
  let ?s0 = "start fl (Some cfg) parse twitter now1 now2 loader"
  let ?L = "\<lambda>c. loadTweets fl cfg parse (loader c)
                  (maxDate_of (main_filter fl cfg now1 now2) c) (tweetType_of c)"
  have r0: "rest ?s0 GMain = main fl (Some cfg) now1 now2"
    "\<And>c. rest ?s0 (GLoad c) = snd (?L c)"
    "\<And>c. rest ?s0 (GRemove c)
            = removeTweets fl twitter parse (sends (snd (?L c))) (tweetType_of c)"
    "latch ?s0 = 0"
    by (simp_all add: start_def)
  have l: "latch s = 0"
    using run_inv(3) [OF run ret] main_trace(1,2) [of fl cfg now1 now2] by (simp add: r0)
  have sufL: "\<And>c. suffix (rest s (GLoad c)) (snd (?L c))"
    using run_inv(2) [OF run] by (simp add: r0 [symmetric])
  have sufR: "\<And>c. suffix (rest s (GRemove c)) (rest ?s0 (GRemove c))"
    using run_inv(2) [OF run] by simp
  \<comment> \<open>what is left of a loader or of a consumer never adds to the counter\<close>
  have pL: "pending (rest s (GLoad c)) \<le> 0
            \<and> (pending (rest s (GLoad c)) = 0 \<and> fst (?L c) \<longrightarrow> rest s (GLoad c) = [])" for c
  proof (cases "fst (?L c)")
    case True
    from loadTweets_trace(1) [OF True] obtain xs where
      xs: "snd (?L c) = xs @ [LatchDone]" "\<forall>e \<in> set xs. bal e = 0" by blast
    from suffix_before_Done [OF xs(2), of "rest s (GLoad c)"] sufL [of c] xs(1)
    show ?thesis by (auto simp add: pending_Nil)
  next
    case False
    from neutral_suffix [OF loadTweets_trace(2) [OF False] sufL [of c]]
    show ?thesis using False by simp
  qed
  have pR: "pending (rest s (GRemove c)) \<le> 0
            \<and> (pending (rest s (GRemove c)) = 0 \<longrightarrow>
                 rest s (GRemove c) = [] \<or> rest s (GRemove c) = rest ?s0 (GRemove c))" for c
  proof -
    from removeTweets_trace [of fl twitter parse "sends (snd (?L c))" "tweetType_of c"]
    obtain xs where xs: "rest ?s0 (GRemove c) = LatchAdd 1 # xs @ [LatchDone]"
      "\<forall>e \<in> set xs. bal e = 0" by (auto simp add: r0)
    from sufR [of c] xs(1)
    have "rest s (GRemove c) = rest ?s0 (GRemove c) \<or> suffix (rest s (GRemove c)) (xs @ [LatchDone])"
      by (simp add: suffix_Cons)
    then show ?thesis
    proof
      assume a: "rest s (GRemove c) = rest ?s0 (GRemove c)"
      have "pending (LatchAdd 1 # xs @ [LatchDone]) = 0"
        using neutral_suffix [OF xs(2), of xs]
        by (simp add: pending_Cons pending_append pending_Nil)
      with a xs(1) show ?thesis by simp
    next
      assume "suffix (rest s (GRemove c)) (xs @ [LatchDone])"
      from suffix_before_Done [OF xs(2) this] show ?thesis
        by (auto simp add: pending_Nil)
    qed
  qed
  \<comment> \<open>what the counter has to receive in total, at the start\<close>
  have p0L: "pending (snd (?L c)) = (if fst (?L c) then - 1 else 0)" for c
  proof (cases "fst (?L c)")
    case True
    from loadTweets_trace(1) [OF True] obtain xs where
      xs: "snd (?L c) = xs @ [LatchDone]" "\<forall>e \<in> set xs. bal e = 0" by blast
    from neutral_suffix [OF xs(2), of xs] xs(1) True show ?thesis
      by (simp add: pending_append pending_Cons pending_Nil)
  next
    case False
    from neutral_suffix [OF loadTweets_trace(2) [OF False], of "snd (?L c)"] False
    show ?thesis by simp
  qed
  have p0R: "pending (rest ?s0 (GRemove c)) = 0" for c
  proof -
    from removeTweets_trace [of fl twitter parse "sends (snd (?L c))" "tweetType_of c"]
    obtain xs where xs: "rest ?s0 (GRemove c) = LatchAdd 1 # xs @ [LatchDone]"
      "\<forall>e \<in> set xs. bal e = 0" by (auto simp add: r0)
    from neutral_suffix [OF xs(2), of xs] xs(1) show ?thesis
      by (simp add: pending_Cons pending_append pending_Nil)
  qed
  have out0: "outstanding ?s0 = 2 + pending (snd (?L Tw)) + pending (snd (?L Lk))"
    using p0R [of Tw] p0R [of Lk] main_trace(3) [of fl cfg now1 now2]
    by (simp add: outstanding_def r0(1,2))
  have out: "outstanding s = pending (rest s (GLoad Tw)) + pending (rest s (GLoad Lk))
               + pending (rest s (GRemove Tw)) + pending (rest s (GRemove Lk))"
    by (simp add: outstanding_def ret pending_Nil)
  from run_inv(1) [OF run] l r0(4) out0 out
  have eq: "pending (rest s (GLoad Tw)) + pending (rest s (GLoad Lk))
               + pending (rest s (GRemove Tw)) + pending (rest s (GRemove Lk))
            = 2 + pending (snd (?L Tw)) + pending (snd (?L Lk))"
    by simp
  from eq pL [of Tw] pL [of Lk] pR [of Tw] pR [of Lk] p0L [of Tw] p0L [of Lk]
  have all: "fst (?L Tw) \<and> fst (?L Lk)
             \<and> pending (rest s (GLoad Tw)) = 0 \<and> pending (rest s (GLoad Lk)) = 0
             \<and> pending (rest s (GRemove Tw)) = 0 \<and> pending (rest s (GRemove Lk)) = 0"
    by (auto split: if_splits)
  with pL [of Tw] pL [of Lk] pR [of Tw] pR [of Lk] show ?thesis
    by (cases c) auto
qed


text \<open>
  C2. The claim is that \<open>main\<close> does not return from \<open>latch.Wait()\<close> before every
  \<open>loadTweets\<close> and every \<open>removeTweets\<close> has called \<open>latch.Done()\<close>, and in
  particular not while a \<open>removeTweets\<close> has not yet called \<open>latch.Add(1)\<close>. The code
  does not keep it: \<open>main\<close> adds 2 for the two \<open>loadTweets\<close> before the \<open>go\<close>
  statements, but each \<open>removeTweets\<close> adds 1 for itself only once its goroutine
  runs. On an account without posts and likes, under the schedule \<open>loadersFirst\<close>,
  the counter goes from 2 to 0, \<open>latch.Wait()\<close> returns and \<open>main\<close> returns, while
  both \<open>removeTweets\<close> still have all their events before them.
\<close>

theorem C2_main_returns_before_consumers_register:
  "map_option
     (\<lambda>s. (latch s, rest s GMain, rest s (GLoad Tw), rest s (GLoad Lk),
           rest s (GRemove Tw), rest s (GRemove Lk)))
     (run loadersFirst
        (start dryRun (Some sampleConfig) sampleParse sampleApi sampleNow sampleNow noTweets))
   = Some (0, [], [], [],
           [LatchAdd 1, RangeEnd, LatchDone],
           [LatchAdd 1, RangeEnd, LatchDone])"
  by (simp add: start_def loadersFirst_def step_def main_def dryRun_def Let_def
        loadTweets_def init_state_def iteration_def noTweets_def removeTweets_def)

end
